theory Spec2Isabelle
  imports Complex_Main "HOL-Library.List_Lexorder" "HOL-Library.Char_ord"
begin

section \<open>Strings\<close>

text \<open>
  A JavaScript string is modelled as a \<^typ>\<open>string\<close>; every \<^typ>\<open>char\<close> stands for one
  code unit below 256. Strings are compared with \<open><\<close> code unit by code unit, which is
  the lexicographic order of \<^typ>\<open>char list\<close>.

  \<open>is_space\<close> is the class \<open>\s\<close> of regular expressions (and the characters removed
  by \<open>trim\<close> and skipped by \<open>parseFloat\<close>), restricted to that range: TAB, LF, VT, FF,
  CR, SP and NBSP.
\<close>

definition is_space :: "char \<Rightarrow> bool" where
  "is_space c = (c \<in> {CHR 0x09, CHR 0x0A, CHR 0x0B, CHR 0x0C, CHR 0x0D, CHR 0x20, CHR 0xA0})"

definition trim :: "string \<Rightarrow> string" where
  "trim s = rev (dropWhile is_space (rev (dropWhile is_space s)))"

text \<open>\<open>s.split(/\s+/g)\<close>: the pieces between maximal runs of white space.\<close>

function split_ws :: "string \<Rightarrow> string list" where
  "split_ws [] = [[]]"
| "split_ws (c # cs) =
     (if is_space c then [] # split_ws (dropWhile is_space cs)
      else (case split_ws cs of w # ws \<Rightarrow> (c # w) # ws | [] \<Rightarrow> [[c]]))"
  by pat_completeness auto
termination
  by (relation "measure length") (auto simp: le_imp_less_Suc length_dropWhile_le)

text \<open>\<open>xs.join(" ")\<close>\<close>

fun join :: "string list \<Rightarrow> string" where
  "join [] = []"
| "join [x] = x"
| "join (x # y # ys) = x @ '' '' @ join (y # ys)"

section \<open>Values\<close>

text \<open>
  A number is not-a-number, an infinity or finite. A finite number carries the exact
  value of the literal it was read from; rounding to binary64 is left out, and no
  property below reads the digits of a number.
\<close>

datatype number = NaN | Finite rat | PosInfinity | NegInfinity

datatype jsvalue = VNumber number | VString string | VBoolean bool | VDate int

fun typeof :: "jsvalue \<Rightarrow> string" where
  "typeof (VNumber n) = ''number''"
| "typeof (VString s) = ''string''"
| "typeof (VBoolean b) = ''boolean''"
| "typeof (VDate d) = ''object''"

text \<open>Truthiness of a value, and of a property that may be absent (\<open>undefined\<close>).\<close>

fun truthy :: "jsvalue \<Rightarrow> bool" where
  "truthy (VNumber n) = (n \<noteq> NaN \<and> n \<noteq> Finite 0)"
| "truthy (VString s) = (s \<noteq> [])"
| "truthy (VBoolean b) = b"
| "truthy (VDate d) = True"

definition truthy_opt :: "jsvalue option \<Rightarrow> bool" where
  "truthy_opt v = (case v of None \<Rightarrow> False | Some x \<Rightarrow> truthy x)"

definition truthy_str :: "string option \<Rightarrow> bool" where
  "truthy_str s = (case s of None \<Rightarrow> False | Some x \<Rightarrow> x \<noteq> [])"

subsection \<open>parseFloat\<close>

definition is_digit :: "char \<Rightarrow> bool" where
  "is_digit c = (c \<in> set ''0123456789'')"

definition digit_val :: "char \<Rightarrow> nat" where
  "digit_val c = of_char c - 48"

definition digits_val :: "string \<Rightarrow> nat" where
  "digits_val ds = foldl (\<lambda>a c. 10 * a + digit_val c) 0 ds"

definition pow10 :: "int \<Rightarrow> rat" where
  "pow10 e = (if 0 \<le> e then 10 ^ nat e else 1 / 10 ^ nat (- e))"

definition signedInteger :: "int \<Rightarrow> string \<Rightarrow> int" where
  "signedInteger sg s =
     (let ds = takeWhile is_digit s in if ds = [] then 0 else sg * int (digits_val ds))"

text \<open>The exponent of an optional \<open>ExponentPart\<close> at the head of the string; an \<open>e\<close>
  with no digit after it is not part of the literal.\<close>

definition exponentPart :: "string \<Rightarrow> int" where
  "exponentPart s =
     (case s of
        [] \<Rightarrow> 0
      | c # r \<Rightarrow>
          if c \<noteq> CHR ''e'' \<and> c \<noteq> CHR ''E'' then 0
          else (case r of
                  [] \<Rightarrow> 0
                | sg # r' \<Rightarrow>
                    if sg = CHR ''+'' then signedInteger 1 r'
                    else if sg = CHR ''-'' then signedInteger (- 1) r'
                    else signedInteger 1 r))"

text \<open>The value of the longest prefix that is a \<open>StrUnsignedDecimalLiteral\<close>:
  \<open>Infinity\<close>, digits with an optional fraction, or a fraction starting with the dot.\<close>

definition unsignedLiteral :: "string \<Rightarrow> number" where
  "unsignedLiteral s =
     (if take 8 s = ''Infinity'' then PosInfinity
      else
        let ip = takeWhile is_digit s;
            r1 = dropWhile is_digit s;
            dot = (r1 \<noteq> [] \<and> hd r1 = CHR ''.'');
            fp = (if dot then takeWhile is_digit (tl r1) else []);
            r2 = (if dot then dropWhile is_digit (tl r1) else r1)
        in if ip = [] \<and> fp = [] then NaN
           else Finite (of_nat (digits_val (ip @ fp)) * pow10 (exponentPart r2 - int (length fp))))"

fun negate :: "number \<Rightarrow> number" where
  "negate NaN = NaN"
| "negate (Finite r) = Finite (- r)"
| "negate PosInfinity = NegInfinity"
| "negate NegInfinity = PosInfinity"

definition parseFloat :: "string \<Rightarrow> number" where
  "parseFloat val =
     (case dropWhile is_space val of
        [] \<Rightarrow> NaN
      | c # r \<Rightarrow>
          if c = CHR ''+'' then unsignedLiteral r
          else if c = CHR ''-'' then negate (unsignedLiteral r)
          else unsignedLiteral (c # r))"

definition isNaN :: "number \<Rightarrow> bool" where
  "isNaN f = (f = NaN)"

subsection \<open>convert\<close>

text \<open>
  \<open>convert(val, type)\<close>; \<open>Inl\<close> is the string that is thrown. The callers pass a
  command-line token or the value of an environment variable, so \<open>val\<close> is a string.
\<close>

definition convert :: "string \<Rightarrow> string \<Rightarrow> string + jsvalue" where
  "convert val type =
     (if type = ''string'' then Inr (VString val)
      else if type = ''number'' then
        (let f = parseFloat val
         in if isNaN f then Inl (''expected a number, got: '' @ val) else Inr (VNumber f))
      else if type = ''boolean'' then Inr (VBoolean (val \<noteq> []))
      else Inl (''unknown type: '' @ type))"

section \<open>Flags\<close>

record Flag =
  initial :: jsvalue
  description :: string
  env :: "string option"

record namedFlag = Flag +
  name :: string

text \<open>
  A \<open>Record<string, Flag>\<close> is the list of its entries. Its keys are distinct, which
  is the hypothesis \<open>distinct (map fst record)\<close> where a property needs it.
\<close>

type_synonym Flags = "(string \<times> Flag) list"

text \<open>
  \<open>toSorted(compare)\<close> as insertion by the comparator, which answers \<open>-1\<close> or \<open>1\<close>.
  Where the compared names are distinct the comparator is a strict total order and the
  sorted list is the same for every sorting algorithm.
\<close>

fun insert_by :: "('a \<Rightarrow> 'a \<Rightarrow> int) \<Rightarrow> 'a \<Rightarrow> 'a list \<Rightarrow> 'a list" where
  "insert_by compare x [] = [x]"
| "insert_by compare x (y # ys) =
     (if compare x y < 0 then x # y # ys else y # insert_by compare x ys)"

definition toSorted :: "('a \<Rightarrow> 'a \<Rightarrow> int) \<Rightarrow> 'a list \<Rightarrow> 'a list" where
  "toSorted compare xs = foldr (insert_by compare) xs []"

definition namedFlags :: "Flags \<Rightarrow> namedFlag list" where
  "namedFlags record =
     toSorted (\<lambda>na nb. if name na < name nb then - 1 else 1)
       (map (\<lambda>kv. \<lparr>initial = initial (snd kv), description = description (snd kv),
                    env = env (snd kv), name = fst kv\<rparr>) record)"

section \<open>Commands\<close>

record CommandInput =
  input_flags :: "string \<rightharpoonup> jsvalue"
  input_args :: "string list"
  input_cmdName :: string

text \<open>
  A handler is the function from its input to the way it ends: it returns, throws a
  string, or throws something else. Handlers that dispatch other commands are outside
  the model.
\<close>

datatype run_end = Returns | ThrowsString string | ThrowsOther

record TakeCommand =
  cmd_name :: string
  cmd_names :: "string list"
  cmd_description :: string
  cmd_help :: "string option"
  cmd_flags :: Flags
  cmd_run :: "CommandInput \<Rightarrow> run_end"

text \<open>
  What \<open>Register\<close> is given, before validation: a name that may not be a string, a
  \<open>flags\<close> value that may be falsy or an array, a \<open>run\<close> that may not be a function.
  A missing description and an empty one are both the empty string.
\<close>

datatype raw_flags = FlagsFalsy | FlagsArray | FlagsObject Flags

record RawCommand =
  raw_name :: "string option"
  raw_description :: string
  raw_help :: "string option"
  raw_flags :: raw_flags
  raw_run :: "(CommandInput \<Rightarrow> run_end) option"

section \<open>Outcomes\<close>

text \<open>
  A help view is kept as its data: the names listed by the overview, or the command
  name and the left column (flag, short alias, type annotation) of the detail view. The
  right column prints defaults, which needs the printing of numbers and dates.
\<close>

datatype help_view = Overview "string list" | Detail string "string list"

record exit_info =
  shown :: help_view
  message :: "string option"
  code :: int

text \<open>
  How a dispatch ends: \<open>Failed\<close> is \<open>exit(msg)\<close> (the message is printed and the
  process exits with code 1), \<open>Exited\<close> is a help view followed by \<open>process.exit\<close>,
  \<open>Thrown\<close> a string exception leaving the function, \<open>Ran\<close> the handler returning.
\<close>

datatype outcome =
    Failed string
  | Exited exit_info
  | Thrown string
  | ThrownOther
  | Ran string CommandInput

type_synonym environment = "string \<rightharpoonup> string"

section \<open>Registry\<close>

fun validate :: "string list \<Rightarrow> RawCommand list \<Rightarrow> string + TakeCommand list" where
  "validate names [] = Inr []"
| "validate names (c # cs) =
     (case raw_name c of
        None \<Rightarrow> Inl ''all CLI(commands) must have a \"name\"''
      | Some n \<Rightarrow>
          let ns = split_ws (trim n); nm = join ns in
          if nm \<in> set names then Inl (''duplicate command name: '' @ nm)
          else
            (case raw_run c of
               None \<Rightarrow> Inl (''command \"'' @ nm @ ''\" must have a \"run\" function'')
             | Some r \<Rightarrow>
                 (case raw_flags c of
                    FlagsFalsy \<Rightarrow>
                      Inl (''command \"'' @ nm @ ''\" must have \"flags\", you can use {}'')
                  | FlagsArray \<Rightarrow>
                      Inl (''command \"'' @ nm @ ''\" flags must be an object, not an array'')
                  | FlagsObject fl \<Rightarrow>
                      (case find (\<lambda>kv. description (snd kv) = []) fl of
                         Some kv \<Rightarrow>
                           Inl (''command \"'' @ nm @ ''\" flag \"'' @ fst kv
                                 @ ''\" must have a \"description\"'')
                       | None \<Rightarrow>
                           (case validate (nm # names) cs of
                              Inl e \<Rightarrow> Inl e
                            | Inr out \<Rightarrow>
                                Inr (\<lparr>cmd_name = nm, cmd_names = ns,
                                      cmd_description = raw_description c,
                                      cmd_help = raw_help c, cmd_flags = fl,
                                      cmd_run = r\<rparr> # out))))))"

definition registry :: "RawCommand list \<Rightarrow> string + TakeCommand list" where
  "registry commands =
     (if commands = [] then Inl ''CLI(commands) must have at least 1 command''
      else
        (case validate [] commands of
           Inl e \<Rightarrow> Inl e
         | Inr cs \<Rightarrow> Inr (toSorted (\<lambda>a b. if cmd_name a < cmd_name b then - 1 else 1) cs)))"

section \<open>Help\<close>

text \<open>
  \<open>help_commands\<close> is \<open>help(msg)\<close> of \<open>Register\<close>: the overview of the commands, without a command named \<open>debug\<close>
  unless \<open>DEBUG\<close> is \<open>1\<close>; then the message if it is truthy, and the exit code
  \<open>msg ? 1 : 0\<close>.
\<close>

definition help_commands :: "TakeCommand list \<Rightarrow> environment \<Rightarrow> string option \<Rightarrow> exit_info" where
  "help_commands commands penv msg =
     \<lparr>shown = Overview (map cmd_name
                (filter (\<lambda>c. cmd_name c \<noteq> ''debug'' \<or> penv ''DEBUG'' = Some ''1'') commands)),
      message = (if truthy_str msg then msg else None),
      code = (if truthy_str msg then 1 else 0)\<rparr>"

text \<open>
  \<open>short(name)\<close> inside \<open>helpFor\<close>: \<open>name[0]\<close> is the first code unit, or
  \<open>undefined\<close> for the empty name; \<open>shorts\<close> is the set of letters given out so far.
  The result is the text and the set afterwards.
\<close>

definition letter :: "string \<Rightarrow> char option" where
  "letter nm = (case nm of [] \<Rightarrow> None | c # cs \<Rightarrow> Some c)"

definition short :: "char option list \<Rightarrow> string \<Rightarrow> string \<times> char option list" where
  "short shorts nm =
     (let l = letter nm in
      if l \<in> set shorts then ([], shorts)
      else ('', -'' @ (case l of None \<Rightarrow> ''undefined'' | Some c \<Rightarrow> [c]), l # shorts))"

text \<open>The texts returned by the successive calls of \<open>short\<close> while the flags are mapped.\<close>

fun short_calls :: "char option list \<Rightarrow> string list \<Rightarrow> string list" where
  "short_calls shorts [] = []"
| "short_calls shorts (nm # nms) =
     (case short shorts nm of (s, shorts') \<Rightarrow> s # short_calls shorts' nms)"

definition flag_left :: "namedFlag \<Rightarrow> string \<Rightarrow> string" where
  "flag_left flag s =
     '' --'' @ name flag @ s
       @ (if typeof (initial flag) = ''boolean'' then []
          else '' <'' @ typeof (initial flag) @ ''>'')"

text \<open>\<open>helpFor(cmd, flagSpecs, msg)\<close>: it always ends in \<open>process.exit(0)\<close>.\<close>

definition helpFor :: "TakeCommand \<Rightarrow> namedFlag list \<Rightarrow> string option \<Rightarrow> exit_info" where
  "helpFor cmd flagSpecs msg =
     \<lparr>shown = Detail (cmd_name cmd)
                (map2 flag_left flagSpecs (short_calls [] (map name flagSpecs))),
      message = (if truthy_str msg then msg else None),
      code = 0\<rparr>"

section \<open>Dispatch\<close>

subsection \<open>Stage 1: the command\<close>

text \<open>
  The loop \<open>for (i = args.length - 1; i >= 0; i--)\<close>; the counter of \<open>find_command\<close>
  is \<open>i + 1\<close>, the length of the prefix \<open>names\<close>.
\<close>

fun find_command ::
  "TakeCommand list \<Rightarrow> string list \<Rightarrow> nat \<Rightarrow> (TakeCommand \<times> string list) option" where
  "find_command commands args 0 = None"
| "find_command commands args (Suc i) =
     (case find (\<lambda>c. cmd_name c = join (take (Suc i) args)) commands of
        Some match \<Rightarrow> Some (match, drop (Suc i) args)
      | None \<Rightarrow> find_command commands args i)"

definition resolve :: "TakeCommand list \<Rightarrow> string list \<Rightarrow> (TakeCommand \<times> string list) option" where
  "resolve commands args = find_command commands args (length args)"

subsection \<open>Stage 2: flags and arguments\<close>

definition help_flag :: namedFlag where
  "help_flag = \<lparr>initial = VBoolean False, description = ''show help'', env = None, name = ''help''\<rparr>"

definition flagSpecs_of :: "TakeCommand \<Rightarrow> namedFlag list" where
  "flagSpecs_of match = namedFlags (cmd_flags match) @ [help_flag]"

text \<open>
  \<open>/^-(-?)(\S+)$/.exec(arg)\<close>: the pair of \<open>Boolean(m[1])\<close> and \<open>m[2]\<close>. Two dashes
  followed by nothing match as the short flag \<open>-\<close>.
\<close>

definition match_flag :: "string \<Rightarrow> (bool \<times> string) option" where
  "match_flag arg =
     (case arg of
        [] \<Rightarrow> None
      | c # r \<Rightarrow>
          if c \<noteq> CHR ''-'' then None
          else if r \<noteq> [] \<and> hd r = CHR ''-'' \<and> tl r \<noteq> [] \<and> (\<forall>x \<in> set (tl r). \<not> is_space x)
            then Some (True, tl r)
          else if r \<noteq> [] \<and> (\<forall>x \<in> set r. \<not> is_space x) then Some (False, r)
          else None)"

text \<open>\<open>flagSpecs.find(...)\<close>: a long flag by its name, a short one by the first flag
  whose first letter is among the letters of the token.\<close>

definition find_flag :: "namedFlag list \<Rightarrow> bool \<Rightarrow> string \<Rightarrow> namedFlag option" where
  "find_flag flagSpecs long nm =
     find (\<lambda>f. if \<not> long then (case letter (name f) of None \<Rightarrow> False | Some l \<Rightarrow> l \<in> set nm)
               else name f = nm) flagSpecs"

record parse_state =
  nextFlag :: "namedFlag option"
  flagVals :: "string \<rightharpoonup> jsvalue"
  cmdArgs :: "string list"

definition parse_init :: parse_state where
  "parse_init = \<lparr>nextFlag = None, flagVals = Map.empty, cmdArgs = []\<rparr>"

text \<open>The loop over \<open>rest\<close>. \<open>Inl\<close> leaves \<open>cmd\<close>: the help for an unknown flag, or the
  string thrown by \<open>convert\<close>.\<close>

fun parse_rest ::
  "(string option \<Rightarrow> exit_info) \<Rightarrow> namedFlag list \<Rightarrow> string list \<Rightarrow> parse_state
     \<Rightarrow> outcome + parse_state" where
  "parse_rest cmdHelp flagSpecs [] st = Inr st"
| "parse_rest cmdHelp flagSpecs (arg # rest) st =
     (case nextFlag st of
        Some nf \<Rightarrow>
          (case convert arg (typeof (initial nf)) of
             Inl e \<Rightarrow> Inl (Thrown e)
           | Inr v \<Rightarrow>
               parse_rest cmdHelp flagSpecs rest
                 (st\<lparr>flagVals := (flagVals st)(name nf \<mapsto> v), nextFlag := None\<rparr>))
      | None \<Rightarrow>
          (case match_flag arg of
             Some (long, nm) \<Rightarrow>
               (case find_flag flagSpecs long nm of
                  None \<Rightarrow> Inl (Exited (cmdHelp (Some (''unknown flag \"'' @ nm @ ''\"''))))
                | Some fs \<Rightarrow>
                    if typeof (initial fs) = ''boolean''
                    then parse_rest cmdHelp flagSpecs rest
                           (st\<lparr>flagVals := (flagVals st)(name fs \<mapsto> VBoolean True)\<rparr>)
                    else parse_rest cmdHelp flagSpecs rest (st\<lparr>nextFlag := Some fs\<rparr>))
           | None \<Rightarrow> parse_rest cmdHelp flagSpecs rest (st\<lparr>cmdArgs := cmdArgs st @ [arg]\<rparr>)))"

text \<open>\<open>env && process.env[env]\<close>: the value of the variable when the flag names one
  and both the name and the value are non-empty.\<close>

definition env_value :: "environment \<Rightarrow> string option \<Rightarrow> string option" where
  "env_value penv e =
     (case e of
        None \<Rightarrow> None
      | Some v \<Rightarrow>
          if v = [] then None
          else (case penv v of None \<Rightarrow> None | Some s \<Rightarrow> if s = [] then None else Some s))"

text \<open>
  \<open>flagVals\<close> starts as the empty object \<open>{}\<close> and is modelled by the map of its own
  keys. The operator \<open>in\<close> also sees the keys an object inherits from
  \<open>Object.prototype\<close>, so \<open>name in flagVals\<close> holds for an own key and for each of the
  names below. A write \<open>flagVals[name] = v\<close> makes \<open>name\<close> an own key; the name
  \<open>__proto__\<close>, which runtimes read and write in their own ways, gets no other treatment
  than being in this list.
\<close>

definition inherited_keys :: "string list" where
  "inherited_keys =
     [''constructor'', ''hasOwnProperty'', ''isPrototypeOf'', ''propertyIsEnumerable'',
      ''toLocaleString'', ''toString'', ''valueOf'', ''__proto__'', ''__defineGetter__'',
      ''__defineSetter__'', ''__lookupGetter__'', ''__lookupSetter__'']"

definition has_key :: "(string \<rightharpoonup> jsvalue) \<Rightarrow> string \<Rightarrow> bool" where
  "has_key fv nm = (fv nm \<noteq> None \<or> nm \<in> set inherited_keys)"

text \<open>
  The loop that sets the default values. A flag whose name is already a key, own or
  inherited, is skipped. The type of \<open>initial\<close> has no \<open>undefined\<close>, so the last test of
  the loop holds.
\<close>

fun set_defaults ::
  "environment \<Rightarrow> namedFlag list \<Rightarrow> (string \<rightharpoonup> jsvalue) \<Rightarrow> string + (string \<rightharpoonup> jsvalue)" where
  "set_defaults penv [] fv = Inr fv"
| "set_defaults penv (flag # rest) fv =
     (if has_key fv (name flag) then set_defaults penv rest fv
      else
        (case env_value penv (env flag) of
           Some s \<Rightarrow>
             (case convert s (typeof (initial flag)) of
                Inl e \<Rightarrow> Inl e
              | Inr v \<Rightarrow> set_defaults penv rest (fv(name flag \<mapsto> v)))
         | None \<Rightarrow> set_defaults penv rest (fv(name flag \<mapsto> initial flag))))"

subsection \<open>cmd\<close>

text \<open>
  \<open>prepare\<close> is \<open>cmd\<close> up to the call of the handler: \<open>Inl\<close> when the dispatch ends
  before it, \<open>Inr\<close> the matched command and the input the handler is called with.
\<close>

definition prepare ::
  "TakeCommand list \<Rightarrow> environment \<Rightarrow> string list \<Rightarrow> outcome + (TakeCommand \<times> CommandInput)" where
  "prepare commands penv args =
     (if args = [] then Inl (Exited (help_commands commands penv None))
      else
        (case resolve commands args of
           None \<Rightarrow> Inl (Exited (help_commands commands penv (Some (''no matched command: '' @ join args))))
         | Some (match, rest) \<Rightarrow>
             (let flagSpecs = flagSpecs_of match;
                  cmdHelp = helpFor match flagSpecs
              in case parse_rest cmdHelp flagSpecs rest parse_init of
                   Inl out \<Rightarrow> Inl out
                 | Inr st \<Rightarrow>
                     (case nextFlag st of
                        Some nf \<Rightarrow>
                          Inl (Exited (cmdHelp (Some (''missing value for flag: '' @ name nf))))
                      | None \<Rightarrow>
                          if truthy_opt (flagVals st ''help'') then Inl (Exited (cmdHelp None))
                          else
                            (case set_defaults penv flagSpecs (flagVals st) of
                               Inl e \<Rightarrow> Inl (Thrown e)
                             | Inr fv \<Rightarrow>
                                 Inr (match, \<lparr>input_flags = fv, input_args = cmdArgs st,
                                              input_cmdName = cmd_name match\<rparr>))))))"

definition cmd :: "TakeCommand list \<Rightarrow> environment \<Rightarrow> string list \<Rightarrow> outcome" where
  "cmd commands penv args =
     (case prepare commands penv args of
        Inl out \<Rightarrow> out
      | Inr (match, input) \<Rightarrow>
          (case cmd_run match input of
             Returns \<Rightarrow> Ran (cmd_name match) input
           | ThrowsString err \<Rightarrow> Exited (helpFor match (flagSpecs_of match) (Some err))
           | ThrowsOther \<Rightarrow> ThrownOther))"

subsection \<open>The root command\<close>

text \<open>
  \<open>Register\<close> after the registry is built, on the arguments \<open>process.argv.slice(2)\<close>.
  What it does with a thrown value that is not a string is not modelled.
\<close>

definition root :: "TakeCommand list \<Rightarrow> environment \<Rightarrow> string list \<Rightarrow> outcome" where
  "root commands penv args =
     (if args = [] \<or> hd args = ''-h'' \<or> hd args = ''--help''
      then Exited (help_commands commands penv None)
      else
        (case cmd commands penv args of
           Thrown err \<Rightarrow> Exited (help_commands commands penv (Some err))
         | out \<Rightarrow> out))"

definition Register :: "RawCommand list \<Rightarrow> environment \<Rightarrow> string list \<Rightarrow> outcome" where
  "Register commands penv args =
     (case registry commands of
        Inl msg \<Rightarrow> Failed msg
      | Inr cs \<Rightarrow> root cs penv args)"

section \<open>Well-formed registrations\<close>

text \<open>The tidy name of a command: its name trimmed, split at white space and joined
  with single spaces.\<close>

definition normalized :: "string \<Rightarrow> string" where
  "normalized n = join (split_ws (trim n))"

definition tidy_name :: "RawCommand \<Rightarrow> string" where
  "tidy_name c = (case raw_name c of None \<Rightarrow> [] | Some n \<Rightarrow> normalized n)"

text \<open>A command with a string name, a \<open>run\<close> function and a \<open>flags\<close> object whose
  flags all have a description.\<close>

definition well_formed :: "RawCommand \<Rightarrow> bool" where
  "well_formed c =
     (raw_name c \<noteq> None \<and> raw_run c \<noteq> None
      \<and> (case raw_flags c of
            FlagsObject fl \<Rightarrow> list_all (\<lambda>kv. description (snd kv) \<noteq> []) fl
          | _ \<Rightarrow> False))"

section \<open>Example commands\<close>

text \<open>The commands of the README that the examples below are run on.\<close>

definition db :: TakeCommand where
  "db = \<lparr>cmd_name = ''db'', cmd_names = [''db''], cmd_description = ''Database tools'',
          cmd_help = None, cmd_flags = [], cmd_run = (\<lambda>input. Returns)\<rparr>"

definition db_migrate :: TakeCommand where
  "db_migrate = \<lparr>cmd_name = ''db migrate'', cmd_names = [''db'', ''migrate''],
                  cmd_description = ''Run database migrations'', cmd_help = None,
                  cmd_flags = [], cmd_run = (\<lambda>input. Returns)\<rparr>"

definition repeat_cmd :: TakeCommand where
  "repeat_cmd =
     \<lparr>cmd_name = ''repeat'', cmd_names = [''repeat''],
      cmd_description = ''Repeat a message N times'', cmd_help = None,
      cmd_flags = [(''count'', \<lparr>initial = VNumber (Finite 3),
                                description = ''Number of repetitions'', env = Some ''COUNT''\<rparr>)],
      cmd_run = (\<lambda>input. Returns)\<rparr>"

definition build :: TakeCommand where
  "build =
     \<lparr>cmd_name = ''build'', cmd_names = [''build''],
      cmd_description = ''Build the project'', cmd_help = None,
      cmd_flags = [(''workers'', \<lparr>initial = VNumber (Finite 2),
                                  description = ''Parallel jobs'', env = None\<rparr>),
                   (''watch'', \<lparr>initial = VBoolean False,
                                description = ''Watch for changes'', env = None\<rparr>),
                   (''host'', \<lparr>initial = VString ''localhost'',
                               description = ''Host to serve on'', env = Some ''HOST''\<rparr>)],
      cmd_run = (\<lambda>input. Returns)\<rparr>"



text \<open>The handler of \<open>deploy\<close> throws a string when no token is given.\<close>

definition deploy :: TakeCommand where
  "deploy =
     \<lparr>cmd_name = ''deploy'', cmd_names = [''deploy''],
      cmd_description = ''Deploy the application'', cmd_help = None,
      cmd_flags = [(''token'', \<lparr>initial = VString [], description = ''API token'',
                                env = Some ''DEPLOY_TOKEN''\<rparr>)],
      cmd_run = (\<lambda>input. if truthy_opt (input_flags input ''token'') then Returns
                         else ThrowsString ''token is required'')\<rparr>"

definition raw_db :: RawCommand where
  "raw_db = \<lparr>raw_name = Some ''db'', raw_description = ''Database tools'', raw_help = None,
              raw_flags = FlagsObject [], raw_run = Some (\<lambda>input. Returns)\<rparr>"

definition raw_db_migrate :: RawCommand where
  "raw_db_migrate = \<lparr>raw_name = Some ''  db   migrate '',
                      raw_description = ''Run database migrations'', raw_help = None,
                      raw_flags = FlagsObject [], raw_run = Some (\<lambda>input. Returns)\<rparr>"

definition raw_db_again :: RawCommand where
  "raw_db_again = \<lparr>raw_name = Some '' db '', raw_description = ''Database tools, again'',
                    raw_help = None, raw_flags = FlagsObject [],
                    raw_run = Some (\<lambda>input. Returns)\<rparr>"


text \<open>The flag \<open>host\<close> of \<open>build\<close>, with its name.\<close>

definition host_spec :: namedFlag where
  "host_spec = \<lparr>initial = VString ''localhost'', description = ''Host to serve on'',
                 env = Some ''HOST'', name = ''host''\<rparr>"

section \<open>The value converter\<close>

lemma parseFloat_abc: "parseFloat ''abc'' = NaN"
  by (simp add: parseFloat_def is_space_def unsignedLiteral_def is_digit_def)

lemma parseFloat_5: "parseFloat ''5'' = Finite 5"
  by (simp add: parseFloat_def is_space_def unsignedLiteral_def is_digit_def
      exponentPart_def digits_val_def digit_val_def pow10_def)

lemma flagSpecs_of_repeat:
  "flagSpecs_of repeat_cmd =
     [\<lparr>initial = VNumber (Finite 3), description = ''Number of repetitions'',
       env = Some ''COUNT'', name = ''count''\<rparr>, help_flag]"
  by (simp add: flagSpecs_of_def repeat_cmd_def namedFlags_def toSorted_def)

text \<open>
  C7. Converting a token to \<open>number\<close> throws \<open>expected a number, got: <token>\<close>
  exactly when \<open>parseFloat\<close> of the token is not-a-number, and gives the parsed number
  otherwise; converting to \<open>string\<close> never throws; a type other than \<open>string\<close>,
  \<open>number\<close> and \<open>boolean\<close> throws \<open>unknown type: <type>\<close>. A token that follows the
  marker of a number-typed flag and does not parse ends the dispatch with that string.
\<close>

theorem convert_number_fails_iff_NaN:
  "(isNaN (parseFloat val) \<longrightarrow>
      convert val ''number'' = Inl (''expected a number, got: '' @ val))
   \<and> (\<not> isNaN (parseFloat val) \<longrightarrow> convert val ''number'' = Inr (VNumber (parseFloat val)))
   \<and> convert val ''string'' = Inr (VString val)
   \<and> (type \<notin> {''string'', ''number'', ''boolean''} \<longrightarrow>
        convert val type = Inl (''unknown type: '' @ type))
   \<and> (nextFlag st = Some nf \<and> typeof (initial nf) = ''number'' \<and> isNaN (parseFloat val) \<longrightarrow>
        parse_rest cmdHelp flagSpecs (val # rest) st
          = Inl (Thrown (''expected a number, got: '' @ val)))"
  by (simp add: convert_def)

text \<open>\<open>repeat --count abc\<close>, where \<open>count\<close> defaults to 3, and \<open>--count 5\<close>.\<close>

theorem convert_number_fails_iff_NaN_witness:
  "isNaN (parseFloat ''abc'')
   \<and> convert ''abc'' ''number'' = Inl ''expected a number, got: abc''
   \<and> \<not> isNaN (parseFloat ''5'')
   \<and> convert ''5'' ''number'' = Inr (VNumber (Finite 5))
   \<and> convert ''abc'' ''string'' = Inr (VString ''abc'')
   \<and> convert ''abc'' ''object'' = Inl ''unknown type: object''
   \<and> parse_rest (helpFor repeat_cmd (flagSpecs_of repeat_cmd)) (flagSpecs_of repeat_cmd)
         [''--count'', ''abc''] parse_init
        = Inl (Thrown ''expected a number, got: abc'')"
proof -
  let ?count = "\<lparr>initial = VNumber (Finite 3), description = ''Number of repetitions'',
                  env = Some ''COUNT'', name = ''count''\<rparr>"
  let ?cmdHelp = "helpFor repeat_cmd (flagSpecs_of repeat_cmd)"
  have nan: "isNaN (parseFloat ''abc'')"
    by (simp add: isNaN_def parseFloat_abc)
  have five: "\<not> isNaN (parseFloat ''5'')"
    by (simp add: isNaN_def parseFloat_5)
  have pending:
    "parse_rest ?cmdHelp (flagSpecs_of repeat_cmd) [''--count'', ''abc''] parse_init
       = parse_rest ?cmdHelp (flagSpecs_of repeat_cmd) [''abc'']
           (parse_init\<lparr>nextFlag := Some ?count\<rparr>)"
    by (simp add: flagSpecs_of_repeat parse_init_def match_flag_def is_space_def
        find_flag_def help_flag_def)
  note at_abc = convert_number_fails_iff_NaN
      [of "''abc''" "''object''" "parse_init\<lparr>nextFlag := Some ?count\<rparr>" ?count ?cmdHelp
          "flagSpecs_of repeat_cmd" "[]"]
  note at_5 = convert_number_fails_iff_NaN [of "''5''" "''object''"]
  show ?thesis
    using nan five at_abc at_5 pending by (simp add: parseFloat_5)
qed

section \<open>The command resolver\<close>

lemma find_by_name:
  "distinct (map f xs) \<Longrightarrow> (find (\<lambda>c. f c = v) xs = Some m) = (m \<in> set xs \<and> f m = v)"
  by (induction xs) auto

lemma find_command_None:
  "(find_command commands args n = None)
     = (\<forall>j. 0 < j \<and> j \<le> n \<longrightarrow> find (\<lambda>c. cmd_name c = join (take j args)) commands = None)"
proof (induction n)
  case 0
  show ?case by simp
next
  case (Suc n)
  show ?case
  proof (cases "find (\<lambda>c. cmd_name c = join (take (Suc n) args)) commands")
    case None
    have "(\<forall>j. 0 < j \<and> j \<le> Suc n \<longrightarrow> find (\<lambda>c. cmd_name c = join (take j args)) commands = None)
          = (\<forall>j. 0 < j \<and> j \<le> n \<longrightarrow> find (\<lambda>c. cmd_name c = join (take j args)) commands = None)"
      using None by (auto simp: le_Suc_eq)
    with None Suc show ?thesis by simp
  next
    case (Some m)
    then show ?thesis by auto
  qed
qed

lemma find_command_Some:
  "(find_command commands args n = Some (m, r))
     = (\<exists>k. 0 < k \<and> k \<le> n \<and> find (\<lambda>c. cmd_name c = join (take k args)) commands = Some m
            \<and> r = drop k args
            \<and> (\<forall>j. k < j \<and> j \<le> n \<longrightarrow>
                  find (\<lambda>c. cmd_name c = join (take j args)) commands = None))"
  (is "?L n = (\<exists>k. ?R k n)")
proof (induction n)
  case 0
  show ?case by simp
next
  case (Suc n)
  show ?case
  proof (cases "find (\<lambda>c. cmd_name c = join (take (Suc n) args)) commands")
    case None
    have "(\<exists>k. ?R k (Suc n)) = (\<exists>k. ?R k n)"
    proof
      assume "\<exists>k. ?R k (Suc n)"
      then obtain k where k: "?R k (Suc n)" ..
      with None have "k \<noteq> Suc n" by auto
      with k have "?R k n" by auto
      then show "\<exists>k. ?R k n" ..
    next
      assume "\<exists>k. ?R k n"
      then obtain k where k: "?R k n" ..
      with None have "?R k (Suc n)" by (auto simp: le_Suc_eq)
      then show "\<exists>k. ?R k (Suc n)" ..
    qed
    with None Suc show ?thesis by simp
  next
    case (Some m')
    have "(\<exists>k. ?R k (Suc n)) = (m = m' \<and> r = drop (Suc n) args)"
    proof
      assume "\<exists>k. ?R k (Suc n)"
      then obtain k where k: "?R k (Suc n)" ..
      have "k = Suc n"
      proof (rule ccontr)
        assume "k \<noteq> Suc n"
        with k have "find (\<lambda>c. cmd_name c = join (take (Suc n) args)) commands = None" by auto
        with Some show False by simp
      qed
      with k Some show "m = m' \<and> r = drop (Suc n) args" by auto
    next
      assume "m = m' \<and> r = drop (Suc n) args"
      with Some have "?R (Suc n) (Suc n)" by auto
      then show "\<exists>k. ?R k (Suc n)" ..
    qed
    with Some show ?thesis by auto
  qed
qed

text \<open>
  C1. In a registry with distinct names and for a non-empty token list, the resolver
  answers a command and the remaining tokens exactly when the command is registered, its
  name is the first \<open>k\<close> tokens joined by single spaces, the remaining tokens are those after
  them, and no longer prefix is the name of a registered command. When no prefix is a
  registered name, \<open>cmd\<close> ends with the overview, the message
  \<open>no matched command: <all tokens joined>\<close> and exit code 1.
\<close>

theorem resolve_longest_prefix:
  assumes "distinct (map cmd_name commands)" and "args \<noteq> []"
  shows
    "(\<forall>match rest.
        (resolve commands args = Some (match, rest))
          = (\<exists>k. 0 < k \<and> k \<le> length args \<and> match \<in> set commands
                 \<and> cmd_name match = join (take k args) \<and> rest = drop k args
                 \<and> (\<forall>j c. k < j \<and> j \<le> length args \<and> c \<in> set commands \<longrightarrow>
                        cmd_name c \<noteq> join (take j args))))
     \<and> ((\<forall>j c. 0 < j \<and> j \<le> length args \<and> c \<in> set commands \<longrightarrow>
             cmd_name c \<noteq> join (take j args)) \<longrightarrow>
          resolve commands args = None
          \<and> cmd commands penv args
              = Exited (help_commands commands penv (Some (''no matched command: '' @ join args)))
          \<and> message (help_commands commands penv (Some (''no matched command: '' @ join args)))
              = Some (''no matched command: '' @ join args)
          \<and> code (help_commands commands penv (Some (''no matched command: '' @ join args))) = 1)"
proof (intro conjI allI impI)
  fix match rest
  have none: "(find (\<lambda>c. cmd_name c = v) commands = None)
                = (\<forall>c. c \<in> set commands \<longrightarrow> cmd_name c \<noteq> v)" for v
    by (auto simp: find_None_iff)
  show "(resolve commands args = Some (match, rest))
          = (\<exists>k. 0 < k \<and> k \<le> length args \<and> match \<in> set commands
                 \<and> cmd_name match = join (take k args) \<and> rest = drop k args
                 \<and> (\<forall>j c. k < j \<and> j \<le> length args \<and> c \<in> set commands \<longrightarrow>
                        cmd_name c \<noteq> join (take j args)))"
    unfolding resolve_def find_command_Some none find_by_name [OF assms(1)] by blast
next
  assume no: "\<forall>j c. 0 < j \<and> j \<le> length args \<and> c \<in> set commands \<longrightarrow>
                cmd_name c \<noteq> join (take j args)"
  then have "\<forall>j. 0 < j \<and> j \<le> length args \<longrightarrow>
               find (\<lambda>c. cmd_name c = join (take j args)) commands = None"
    by (auto simp: find_None_iff)
  then show r: "resolve commands args = None"
    by (simp add: resolve_def find_command_None)
  show "cmd commands penv args
          = Exited (help_commands commands penv (Some (''no matched command: '' @ join args)))"
    using r assms(2) by (simp add: cmd_def prepare_def)
  show "message (help_commands commands penv (Some (''no matched command: '' @ join args)))
          = Some (''no matched command: '' @ join args)"
    by (simp add: help_commands_def truthy_str_def)
  show "code (help_commands commands penv (Some (''no matched command: '' @ join args))) = 1"
    by (simp add: help_commands_def truthy_str_def)
qed

text \<open>With \<open>db\<close> and \<open>db migrate\<close> registered, \<open>db migrate x\<close> resolves to \<open>db migrate\<close>
  with \<open>x\<close> remaining.\<close>

theorem resolve_longest_prefix_witness:
  "distinct (map cmd_name [db, db_migrate])
   \<and> resolve [db, db_migrate] [''db'', ''migrate'', ''x''] = Some (db_migrate, [''x''])
   \<and> cmd [db, db_migrate] Map.empty [''deploy'', ''now'']
        = Exited \<lparr>shown = Overview [''db'', ''db migrate''],
                  message = Some ''no matched command: deploy now'', code = 1\<rparr>"
proof -
  have d: "distinct (map cmd_name [db, db_migrate])"
    by (simp add: db_def db_migrate_def)
  have longest: "\<exists>k. 0 < k \<and> k \<le> length [''db'', ''migrate'', ''x'']
           \<and> db_migrate \<in> set [db, db_migrate]
           \<and> cmd_name db_migrate = join (take k [''db'', ''migrate'', ''x''])
           \<and> [''x''] = drop k [''db'', ''migrate'', ''x'']
           \<and> (\<forall>j c. k < j \<and> j \<le> length [''db'', ''migrate'', ''x''] \<and> c \<in> set [db, db_migrate] \<longrightarrow>
                  cmd_name c \<noteq> join (take j [''db'', ''migrate'', ''x'']))"
  proof (intro exI [of _ 2] conjI allI impI)
    fix j c
    assume "2 < j \<and> j \<le> length [''db'', ''migrate'', ''x''] \<and> c \<in> set [db, db_migrate]"
    then have "j = 3" and "c = db \<or> c = db_migrate" by auto
    then show "cmd_name c \<noteq> join (take j [''db'', ''migrate'', ''x''])"
      by (auto simp: db_def db_migrate_def)
  qed (simp_all add: db_migrate_def numeral_2_eq_2)
  have nomatch: "\<forall>j c. 0 < j \<and> j \<le> length [''deploy'', ''now''] \<and> c \<in> set [db, db_migrate] \<longrightarrow>
            cmd_name c \<noteq> join (take j [''deploy'', ''now''])"
  proof (intro allI impI)
    fix j c
    assume "0 < j \<and> j \<le> length [''deploy'', ''now''] \<and> c \<in> set [db, db_migrate]"
    then have "j = 1 \<or> j = 2" and "c = db \<or> c = db_migrate" by auto
    then show "cmd_name c \<noteq> join (take j [''deploy'', ''now''])"
      by (auto simp: db_def db_migrate_def numeral_2_eq_2)
  qed
  have ov: "help_commands [db, db_migrate] Map.empty (Some ''no matched command: deploy now'')
      = \<lparr>shown = Overview [''db'', ''db migrate''],
                  message = Some ''no matched command: deploy now'', code = 1\<rparr>"
    by (simp add: help_commands_def truthy_str_def db_def db_migrate_def)
  from resolve_longest_prefix [OF d, of "[''db'', ''migrate'', ''x'']" Map.empty] longest
  have 1: "resolve [db, db_migrate] [''db'', ''migrate'', ''x''] = Some (db_migrate, [''x''])"
    by blast
  from resolve_longest_prefix [OF d, of "[''deploy'', ''now'']" Map.empty] nomatch
  have 2: "cmd [db, db_migrate] Map.empty [''deploy'', ''now'']
        = Exited (help_commands [db, db_migrate] Map.empty (Some (''no matched command: '' @ join [''deploy'', ''now''])))"
    by blast
  show ?thesis using d 1 2 ov by simp
qed

section \<open>The registry\<close>

lemma validate_Inr:
  "(\<exists>out. validate names cs = Inr out)
     = (list_all well_formed cs \<and> distinct (map tidy_name cs)
        \<and> set (map tidy_name cs) \<inter> set names = {})"
proof (induction cs arbitrary: names)
  case Nil
  show ?case by simp
next
  case (Cons c cs)
  show ?case
  proof (cases "well_formed c \<and> tidy_name c \<notin> set names")
    case False
    then have "\<exists>e. validate names (c # cs) = Inl e"
      by (auto simp: well_formed_def tidy_name_def normalized_def Let_def find_None_iff list_all_iff
          split: option.splits raw_flags.splits)
    with False show ?thesis by auto
  next
    case True
    then obtain n where n: "raw_name c = Some n"
      by (auto simp: well_formed_def)
    from True obtain r where r: "raw_run c = Some r"
      by (auto simp: well_formed_def)
    from True obtain fl where fl: "raw_flags c = FlagsObject fl"
      by (auto simp: well_formed_def split: raw_flags.splits)
    from True fl have "find (\<lambda>kv. description (snd kv) = []) fl = None"
      by (auto simp: well_formed_def find_None_iff list_all_iff)
    moreover from True n have "normalized n \<notin> set names" "tidy_name c = normalized n"
      by (simp_all add: tidy_name_def)
    ultimately have c: "raw_name c = Some n" "raw_run c = Some r"
      "raw_flags c = FlagsObject fl" "find (\<lambda>kv. description (snd kv) = []) fl = None"
      "normalized n \<notin> set names" "tidy_name c = normalized n"
      using n r fl by simp_all
    have "(\<exists>out. validate names (c # cs) = Inr out)
            = (\<exists>out. validate (normalized n # names) cs = Inr out)"
      using c by (auto simp: normalized_def Let_def split: sum.splits)
    also have "\<dots> = (list_all well_formed cs \<and> distinct (map tidy_name cs)
        \<and> set (map tidy_name cs) \<inter> set (normalized n # names) = {})"
      by (rule Cons.IH)
    finally show ?thesis using True c by auto
  qed
qed

lemma validate_names:
  "validate names cs = Inr out \<Longrightarrow> map cmd_name out = map tidy_name cs"
proof (induction cs arbitrary: names out)
  case Nil
  then show ?case by simp
next
  case (Cons c cs)
  then show ?case
    by (auto simp: tidy_name_def normalized_def Let_def
        split: option.splits if_splits raw_flags.splits sum.splits)
qed

lemma set_insert_by: "set (insert_by compare x xs) = insert x (set xs)"
  by (induction xs) auto

lemma set_toSorted: "set (toSorted compare xs) = set xs"
  by (induction xs) (auto simp: toSorted_def set_insert_by)

lemma distinct_map_insert_by:
  "distinct (map f (insert_by compare x xs)) = (f x \<notin> f ` set xs \<and> distinct (map f xs))"
  by (induction xs) (auto simp: set_insert_by)

lemma distinct_map_toSorted:
  "distinct (map f (toSorted compare xs)) = distinct (map f xs)"
  by (induction xs) (auto simp: toSorted_def distinct_map_insert_by set_toSorted [unfolded toSorted_def])

lemma length_insert_by: "length (insert_by compare x xs) = Suc (length xs)"
  by (induction xs) auto

lemma length_toSorted: "length (toSorted compare xs) = length xs"
  by (induction xs) (auto simp: toSorted_def length_insert_by)

lemma not_well_formed1:
  "(\<not> well_formed c)
     = (raw_name c = None \<or> raw_run c = None
          \<or> (\<forall>fl. raw_flags c \<noteq> FlagsObject fl)
          \<or> (\<exists>fl kv. raw_flags c = FlagsObject fl \<and> kv \<in> set fl \<and> description (snd kv) = []))"
  by (cases "raw_flags c") (fastforce simp: list_all_iff well_formed_def)+

lemma not_well_formed:
  "(\<not> list_all well_formed commands)
     = (\<exists>c \<in> set commands. raw_name c = None \<or> raw_run c = None
          \<or> (\<forall>fl. raw_flags c \<noteq> FlagsObject fl)
          \<or> (\<exists>fl kv. raw_flags c = FlagsObject fl \<and> kv \<in> set fl \<and> description (snd kv) = []))"
  unfolding not_well_formed1 [symmetric] by (simp add: list_all_iff)

lemma not_distinct_tidy:
  "(\<not> distinct (map tidy_name commands))
     = (\<exists>i j. i < j \<and> j < length commands \<and> tidy_name (commands ! i) = tidy_name (commands ! j))"
proof
  assume "\<not> distinct (map tidy_name commands)"
  then obtain i j where ij: "i < length commands" "j < length commands" "i \<noteq> j"
    "tidy_name (commands ! i) = tidy_name (commands ! j)"
    by (auto simp: distinct_conv_nth)
  show "\<exists>i j. i < j \<and> j < length commands \<and> tidy_name (commands ! i) = tidy_name (commands ! j)"
  proof (cases "i < j")
    case True
    with ij show ?thesis by blast
  next
    case False
    with ij have "j < i" by simp
    with ij show ?thesis by metis
  qed
next
  assume "\<exists>i j. i < j \<and> j < length commands \<and> tidy_name (commands ! i) = tidy_name (commands ! j)"
  then show "\<not> distinct (map tidy_name commands)"
    by (auto simp: distinct_conv_nth) (metis less_trans nat_neq_iff)
qed


text \<open>
  C8. Building the registry fails exactly when the list of commands is empty, or a command
  has no string name, no \<open>run\<close> function, no \<open>flags\<close> object or a flag without a
  description, or two commands have the same tidy name. A failure is \<open>exit(msg)\<close>: the
  process ends with code 1. In a registry that was built, the command names are the tidy
  names and they are pairwise distinct.
\<close>

theorem registry_fails_iff_violation:
  "((\<exists>msg. registry commands = Inl msg)
      = (commands = []
         \<or> (\<exists>c \<in> set commands. raw_name c = None \<or> raw_run c = None
               \<or> (\<forall>fl. raw_flags c \<noteq> FlagsObject fl)
               \<or> (\<exists>fl kv. raw_flags c = FlagsObject fl \<and> kv \<in> set fl
                     \<and> description (snd kv) = []))
         \<or> (\<exists>i j a b. i < j \<and> j < length commands
               \<and> raw_name (commands ! i) = Some a \<and> raw_name (commands ! j) = Some b
               \<and> normalized a = normalized b)))
   \<and> (\<forall>msg. registry commands = Inl msg \<longrightarrow> Register commands penv args = Failed msg)
   \<and> (\<forall>cs. registry commands = Inr cs \<longrightarrow>
         distinct (map cmd_name cs) \<and> set (map cmd_name cs) = tidy_name ` set commands)"
proof (intro conjI allI impI)
  let ?V = "\<exists>c \<in> set commands. raw_name c = None \<or> raw_run c = None
               \<or> (\<forall>fl. raw_flags c \<noteq> FlagsObject fl)
               \<or> (\<exists>fl kv. raw_flags c = FlagsObject fl \<and> kv \<in> set fl
                     \<and> description (snd kv) = [])"
  let ?D = "\<exists>i j a b. i < j \<and> j < length commands
               \<and> raw_name (commands ! i) = Some a \<and> raw_name (commands ! j) = Some b
               \<and> normalized a = normalized b"
  have ok: "(\<exists>out. validate [] commands = Inr out)
              = (list_all well_formed commands \<and> distinct (map tidy_name commands))"
    using validate_Inr [of "[]" commands] by simp
  have fails: "(\<exists>msg. registry commands = Inl msg)
                 = (commands = [] \<or> \<not> (\<exists>out. validate [] commands = Inr out))"
    by (cases "validate [] commands") (auto simp: registry_def)
  have dup1: "\<not> distinct (map tidy_name commands)" if "?D"
  proof -
    from that obtain i j a b where ij: "i < j" "j < length commands"
      "raw_name (commands ! i) = Some a" "raw_name (commands ! j) = Some b"
      "normalized a = normalized b"
      by blast
    then have "tidy_name (commands ! i) = tidy_name (commands ! j)"
      by (simp add: tidy_name_def)
    with ij(1,2) show ?thesis
      unfolding not_distinct_tidy by blast
  qed
  have dup2: "\<not> distinct (map tidy_name commands) \<Longrightarrow> ?V \<or> ?D"
  proof -
    assume "\<not> distinct (map tidy_name commands)"
    then obtain i j where ij: "i < j" "j < length commands"
      "tidy_name (commands ! i) = tidy_name (commands ! j)"
      unfolding not_distinct_tidy by blast
    show "?V \<or> ?D"
    proof (cases "raw_name (commands ! i) = None \<or> raw_name (commands ! j) = None")
      case True
      moreover from ij have "commands ! i \<in> set commands" "commands ! j \<in> set commands"
        by simp_all
      ultimately have ?V by blast
      then show ?thesis ..
    next
      case False
      then obtain a b where "raw_name (commands ! i) = Some a" "raw_name (commands ! j) = Some b"
        by auto
      with ij have ?D by (auto simp: tidy_name_def)
      then show ?thesis ..
    qed
  qed
  have wf: "(\<not> list_all well_formed commands) = ?V"
    by (rule not_well_formed)
  have "(\<not> (list_all well_formed commands \<and> distinct (map tidy_name commands))) = (?V \<or> ?D)"
  proof
    assume "\<not> (list_all well_formed commands \<and> distinct (map tidy_name commands))"
    then consider "\<not> list_all well_formed commands" | "\<not> distinct (map tidy_name commands)"
      by blast
    then show "?V \<or> ?D"
    proof cases
      case 1
      with wf have ?V by simp
      then show ?thesis ..
    next
      case 2
      then show ?thesis by (rule dup2)
    qed
  next
    assume "?V \<or> ?D"
    then show "\<not> (list_all well_formed commands \<and> distinct (map tidy_name commands))"
    proof
      assume ?V
      with wf show ?thesis by simp
    next
      assume ?D
      then have "\<not> distinct (map tidy_name commands)" by (rule dup1)
      then show ?thesis by simp
    qed
  qed
  then show "(\<exists>msg. registry commands = Inl msg) = (commands = [] \<or> ?V \<or> ?D)"
    unfolding fails ok by simp
next
  fix msg
  assume "registry commands = Inl msg"
  then show "Register commands penv args = Failed msg"
    by (simp add: Register_def)
next
  fix cs
  assume cs: "registry commands = Inr cs"
  then obtain out where out: "validate [] commands = Inr out"
    and sorted: "cs = toSorted (\<lambda>a b. if cmd_name a < cmd_name b then - 1 else 1) out"
    by (auto simp: registry_def split: if_splits sum.splits)
  from out have "distinct (map tidy_name commands)"
    using validate_Inr [of "[]" commands] by auto
  with validate_names [OF out] have d: "distinct (map cmd_name out)" by simp
  show "distinct (map cmd_name cs)"
    using d by (simp add: sorted distinct_map_toSorted)
  have "set (map cmd_name cs) = set (map cmd_name out)"
    by (simp add: sorted set_toSorted)
  then show "set (map cmd_name cs) = tidy_name ` set commands"
    using validate_names [OF out] by simp
qed


text \<open>The names \<open>db\<close> and \<open>db\<close> with spaces around it collide; \<open>db migrate\<close> written
  with more spaces and \<open>db\<close> make the registry of the resolver's example.\<close>

theorem registry_fails_iff_violation_witness:
  "registry [raw_db_migrate, raw_db] = Inr [db, db_migrate]
   \<and> distinct (map cmd_name [db, db_migrate])
   \<and> (\<exists>msg. registry [raw_db, raw_db_again] = Inl msg)
   \<and> Register [raw_db, raw_db_again] Map.empty [''db''] = Failed ''duplicate command name: db''
   \<and> (\<exists>msg. registry [] = Inl msg)"
proof -
  have good: "registry [raw_db_migrate, raw_db] = Inr [db, db_migrate]"
    by (simp add: registry_def raw_db_def raw_db_migrate_def trim_def is_space_def toSorted_def
        db_def db_migrate_def Let_def)
  have bad: "registry [raw_db, raw_db_again] = Inl ''duplicate command name: db''"
    by (simp add: registry_def raw_db_def raw_db_again_def trim_def is_space_def Let_def)
  have dup: "\<exists>i j a b. i < j \<and> j < length [raw_db, raw_db_again]
               \<and> raw_name ([raw_db, raw_db_again] ! i) = Some a
               \<and> raw_name ([raw_db, raw_db_again] ! j) = Some b
               \<and> normalized a = normalized b"
    by (rule exI [of _ 0], rule exI [of _ 1])
      (simp add: raw_db_def raw_db_again_def normalized_def trim_def is_space_def)
  note good_inst = registry_fails_iff_violation [of "[raw_db_migrate, raw_db]" Map.empty "[]"]
  note bad_inst = registry_fails_iff_violation [of "[raw_db, raw_db_again]" Map.empty "[''db'']"]
  note empty_inst = registry_fails_iff_violation [of "[]" Map.empty "[]"]
  from good_inst good have 1: "distinct (map cmd_name [db, db_migrate])" by blast
  from bad_inst dup have 2: "\<exists>msg. registry [raw_db, raw_db_again] = Inl msg" by blast
  from bad_inst bad
  have 3: "Register [raw_db, raw_db_again] Map.empty [''db''] = Failed ''duplicate command name: db''"
    by blast
  from empty_inst have 4: "\<exists>msg. registry [] = Inl msg" by blast
  from good 1 2 3 4 show ?thesis by blast
qed

section \<open>Sorted flags\<close>

lemma sorted_insert_by:
  fixes f :: "'a \<Rightarrow> 'b::linorder"
  shows "sorted (map f xs) \<Longrightarrow>
    sorted (map f (insert_by (\<lambda>a b. if f a < f b then - 1 else 1) x xs))"
  by (induction xs) (auto simp: set_insert_by)

lemma sorted_toSorted:
  fixes f :: "'a \<Rightarrow> 'b::linorder"
  shows "sorted (map f (toSorted (\<lambda>a b. if f a < f b then - 1 else 1) xs))"
proof (induction xs)
  case Nil
  show ?case by (simp add: toSorted_def)
next
  case (Cons x xs)
  then show ?case
    using sorted_insert_by [of f "toSorted (\<lambda>a b. if f a < f b then - 1 else 1) xs" x]
    by (simp add: toSorted_def)
qed

lemma map_name_namedFlags_set: "set (map name (namedFlags record)) = fst ` set record"
  by (force simp: namedFlags_def set_toSorted)

lemma sorted_namedFlags: "sorted (map name (namedFlags record))"
  unfolding namedFlags_def by (rule sorted_toSorted)

lemma distinct_namedFlags:
  "distinct (map fst record) \<Longrightarrow> distinct (map name (namedFlags record))"
  by (simp add: namedFlags_def distinct_map_toSorted comp_def)

lemma length_namedFlags: "length (namedFlags record) = length record"
  by (simp add: namedFlags_def length_toSorted)


section \<open>Defaults\<close>



















section \<open>The flag parser\<close>

lemma find_flag_by_name:
  "name f = name g \<Longrightarrow>
     (if \<not> long then (case letter (name f) of None \<Rightarrow> False | Some l \<Rightarrow> l \<in> set nm)
      else name f = nm)
   = (if \<not> long then (case letter (name g) of None \<Rightarrow> False | Some l \<Rightarrow> l \<in> set nm)
      else name g = nm)"
  by simp

lemma find_append_last:
  "find P (xs @ [y]) = Some x \<Longrightarrow>
     (find P xs = Some x \<and> x \<in> set xs) \<or> (x = y \<and> P y \<and> (\<forall>z \<in> set xs. \<not> P z))"
  by (induction xs) (auto split: if_splits)

lemma found_same_name_boolean:
  assumes d: "distinct (map fst (cmd_flags match))"
    and found: "find_flag (flagSpecs_of match) long nm = Some fs"
    and bool: "typeof (initial fs) = ''boolean''"
    and f: "f \<in> set (flagSpecs_of match)"
    and same: "name f = name fs"
  shows "typeof (initial f) = ''boolean''"
proof -
  let ?P = "\<lambda>f. if \<not> long then (case letter (name f) of None \<Rightarrow> False | Some l \<Rightarrow> l \<in> set nm)
               else name f = nm"
  let ?U = "namedFlags (cmd_flags match)"
  have dn: "distinct (map name ?U)"
    by (rule distinct_namedFlags [OF d])
  have hb: "typeof (initial help_flag) = ''boolean''"
    by (simp add: help_flag_def)
  from f have f': "f \<in> set ?U \<or> f = help_flag"
    by (auto simp: flagSpecs_of_def)
  from found have "find ?P (?U @ [help_flag]) = Some fs"
    by (simp add: find_flag_def flagSpecs_of_def)
  from find_append_last [OF this]
  consider "fs \<in> set ?U" | "fs = help_flag" "?P help_flag" "\<forall>z \<in> set ?U. \<not> ?P z"
    by blast
  then show ?thesis
  proof cases
    case 1
    from f' show ?thesis
    proof
      assume "f \<in> set ?U"
      with 1 dn same have "f = fs"
        by (auto simp: distinct_map dest: inj_onD)
      with bool show ?thesis by simp
    next
      assume "f = help_flag"
      with hb show ?thesis by simp
    qed
  next
    case 2
    from f' show ?thesis
    proof
      assume fU: "f \<in> set ?U"
      from same 2(1) have "name f = name help_flag" by simp
      from find_flag_by_name [OF this, of long nm] 2(2) have "?P f" by simp
      with 2(3) fU show ?thesis by blast
    next
      assume "f = help_flag"
      with hb show ?thesis by simp
    qed
  qed
qed

lemma find_flag_in_set: "find_flag flagSpecs long nm = Some fs \<Longrightarrow> fs \<in> set flagSpecs"
  by (auto simp: find_flag_def find_Some_iff)

lemma parse_rest_keeps_true:
  assumes "\<forall>f \<in> set flagSpecs. name f = n \<longrightarrow> typeof (initial f) = ''boolean''"
  shows "flagVals st n = Some (VBoolean True) \<Longrightarrow>
     (case nextFlag st of None \<Rightarrow> True | Some nf \<Rightarrow> name nf \<noteq> n) \<Longrightarrow>
     parse_rest cmdHelp flagSpecs toks st = Inr st' \<Longrightarrow>
     flagVals st' n = Some (VBoolean True)"
proof (induction toks arbitrary: st)
  case Nil
  then show ?case by simp
next
  case (Cons tok toks)
  show ?case
  proof (cases "nextFlag st")
    case (Some nf)
    with Cons.prems(2) have neq: "n \<noteq> name nf" by auto
    from Some Cons.prems(3) obtain v where
      "parse_rest cmdHelp flagSpecs toks
         (st\<lparr>flagVals := (flagVals st)(name nf \<mapsto> v), nextFlag := None\<rparr>) = Inr st'"
      by (auto split: sum.splits)
    then show ?thesis
      by (rule Cons.IH [rotated 2]) (simp_all add: neq Cons.prems(1))
  next
    case None
    show ?thesis
    proof (cases "match_flag tok")
      case noflag: None
      with None Cons.prems(3) have
        "parse_rest cmdHelp flagSpecs toks (st\<lparr>cmdArgs := cmdArgs st @ [tok]\<rparr>) = Inr st'"
        by simp
      then show ?thesis
        by (rule Cons.IH [rotated 2]) (simp_all add: None Cons.prems(1))
    next
      case (Some m)
      obtain long nm where m: "m = (long, nm)" by (cases m)
      from None Some m Cons.prems(3) obtain fs where
        fs: "find_flag flagSpecs long nm = Some fs"
        by (auto split: option.splits)
      then have mem: "fs \<in> set flagSpecs" by (rule find_flag_in_set)
      show ?thesis
      proof (cases "typeof (initial fs) = ''boolean''")
        case True
        with None Some m fs Cons.prems(3) have
          "parse_rest cmdHelp flagSpecs toks
             (st\<lparr>flagVals := (flagVals st)(name fs \<mapsto> VBoolean True)\<rparr>) = Inr st'"
          by simp
        then show ?thesis
          by (rule Cons.IH [rotated 2]) (simp_all add: None Cons.prems(1))
      next
        case False
        with mem assms have neq: "name fs \<noteq> n" by blast
        from False None Some m fs Cons.prems(3) have
          "parse_rest cmdHelp flagSpecs toks (st\<lparr>nextFlag := Some fs\<rparr>) = Inr st'"
          by simp
        then show ?thesis
          by (rule Cons.IH [rotated 2]) (simp_all add: neq Cons.prems(1))
      qed
    qed
  qed
qed

lemma flagSpecs_of_build:
  "flagSpecs_of build =
     [\<lparr>initial = VString ''localhost'', description = ''Host to serve on'',
       env = Some ''HOST'', name = ''host''\<rparr>,
      \<lparr>initial = VBoolean False, description = ''Watch for changes'', env = None,
       name = ''watch''\<rparr>,
      \<lparr>initial = VNumber (Finite 2), description = ''Parallel jobs'', env = None,
       name = ''workers''\<rparr>,
      help_flag]"
  by (simp add: flagSpecs_of_def build_def namedFlags_def toSorted_def)

text \<open>
  C4. Let a token be read with no flag pending and be the marker, long or short, of a flag
  of the matched command. If the flag is boolean-typed, the loop sets it to \<open>true\<close> and
  goes on with the next token with no flag pending, so that token is classified like any
  other; and when the loop ends normally the flag is still \<open>true\<close>. If the flag is
  string- or number-typed, the next token is converted to its type and stored as its
  value, whatever it looks like.
\<close>

theorem boolean_flag_takes_no_value:
  assumes "distinct (map fst (cmd_flags match))"
    and "nextFlag st = None"
    and "match_flag tok = Some (long, nm)"
    and "find_flag (flagSpecs_of match) long nm = Some fs"
  shows
    "(typeof (initial fs) = ''boolean'' \<longrightarrow>
        parse_rest cmdHelp (flagSpecs_of match) (tok # toks) st
          = parse_rest cmdHelp (flagSpecs_of match) toks
              (st\<lparr>flagVals := (flagVals st)(name fs \<mapsto> VBoolean True)\<rparr>)
        \<and> (\<forall>st'. parse_rest cmdHelp (flagSpecs_of match) (tok # toks) st = Inr st' \<longrightarrow>
              flagVals st' (name fs) = Some (VBoolean True)))
     \<and> (typeof (initial fs) \<in> {''string'', ''number''} \<longrightarrow>
          parse_rest cmdHelp (flagSpecs_of match) (tok # val # toks) st
            = (case convert val (typeof (initial fs)) of
                 Inl e \<Rightarrow> Inl (Thrown e)
               | Inr v \<Rightarrow>
                   parse_rest cmdHelp (flagSpecs_of match) toks
                     (st\<lparr>flagVals := (flagVals st)(name fs \<mapsto> v)\<rparr>)))"
proof (intro conjI impI allI)
  assume b: "typeof (initial fs) = ''boolean''"
  with assms show step: "parse_rest cmdHelp (flagSpecs_of match) (tok # toks) st
          = parse_rest cmdHelp (flagSpecs_of match) toks
              (st\<lparr>flagVals := (flagVals st)(name fs \<mapsto> VBoolean True)\<rparr>)"
    by simp
  fix st'
  assume "parse_rest cmdHelp (flagSpecs_of match) (tok # toks) st = Inr st'"
  with step have r: "parse_rest cmdHelp (flagSpecs_of match) toks
              (st\<lparr>flagVals := (flagVals st)(name fs \<mapsto> VBoolean True)\<rparr>) = Inr st'"
    by simp
  have all: "\<forall>f \<in> set (flagSpecs_of match). name f = name fs \<longrightarrow> typeof (initial f) = ''boolean''"
    using found_same_name_boolean [OF assms(1) assms(4) b] by blast
  show "flagVals st' (name fs) = Some (VBoolean True)"
    by (rule parse_rest_keeps_true [OF all _ _ r]) (simp_all add: assms(2))
next
  assume "typeof (initial fs) \<in> {''string'', ''number''}"
  then have nb: "typeof (initial fs) \<noteq> ''boolean''" by auto
  have same: "st\<lparr>flagVals := fv, nextFlag := None\<rparr> = st\<lparr>flagVals := fv\<rparr>" for fv
    using assms(2) by (cases st) simp
  from assms nb show "parse_rest cmdHelp (flagSpecs_of match) (tok # val # toks) st
            = (case convert val (typeof (initial fs)) of
                 Inl e \<Rightarrow> Inl (Thrown e)
               | Inr v \<Rightarrow>
                   parse_rest cmdHelp (flagSpecs_of match) toks
                     (st\<lparr>flagVals := (flagVals st)(name fs \<mapsto> v)\<rparr>))"
    by (simp add: same split: sum.splits)
qed

text \<open>\<open>--watch file.txt\<close> gives \<open>watch = true\<close> and the argument \<open>file.txt\<close>;
  \<open>--workers 5 file.txt\<close> gives \<open>workers = 5\<close> and the same argument.\<close>

theorem boolean_flag_takes_no_value_witness:
  "distinct (map fst (cmd_flags build))
   \<and> nextFlag parse_init = None
   \<and> match_flag ''--watch'' = Some (True, ''watch'')
   \<and> find_flag (flagSpecs_of build) True ''watch''
        = Some \<lparr>initial = VBoolean False, description = ''Watch for changes'', env = None,
                name = ''watch''\<rparr>
   \<and> parse_rest (helpFor build (flagSpecs_of build)) (flagSpecs_of build)
         [''--watch'', ''file.txt''] parse_init
        = Inr \<lparr>nextFlag = None, flagVals = [''watch'' \<mapsto> VBoolean True],
               cmdArgs = [''file.txt'']\<rparr>
   \<and> match_flag ''-w'' = Some (False, ''w'')
   \<and> find_flag (flagSpecs_of build) False ''w''
        = Some \<lparr>initial = VBoolean False, description = ''Watch for changes'', env = None,
                name = ''watch''\<rparr>
   \<and> match_flag ''--workers'' = Some (True, ''workers'')
   \<and> find_flag (flagSpecs_of build) True ''workers''
        = Some \<lparr>initial = VNumber (Finite 2), description = ''Parallel jobs'', env = None,
                name = ''workers''\<rparr>
   \<and> parse_rest (helpFor build (flagSpecs_of build)) (flagSpecs_of build)
         [''--workers'', ''5'', ''file.txt''] parse_init
        = Inr \<lparr>nextFlag = None, flagVals = [''workers'' \<mapsto> VNumber (Finite 5)],
               cmdArgs = [''file.txt'']\<rparr>"
proof -
  let ?watch = "\<lparr>initial = VBoolean False, description = ''Watch for changes'', env = None,
                name = ''watch''\<rparr>"
  let ?workers = "\<lparr>initial = VNumber (Finite 2), description = ''Parallel jobs'', env = None,
                name = ''workers''\<rparr>"
  let ?cmdHelp = "helpFor build (flagSpecs_of build)"
  have d: "distinct (map fst (cmd_flags build))"
    by (simp add: build_def)
  have n: "nextFlag parse_init = None"
    by (simp add: parse_init_def)
  have m1: "match_flag ''--watch'' = Some (True, ''watch'')"
    by (simp add: match_flag_def is_space_def)
  have f1: "find_flag (flagSpecs_of build) True ''watch'' = Some ?watch"
    by (simp add: flagSpecs_of_build find_flag_def)
  have m2: "match_flag ''--workers'' = Some (True, ''workers'')"
    by (simp add: match_flag_def is_space_def)
  have f2: "find_flag (flagSpecs_of build) True ''workers'' = Some ?workers"
    by (simp add: flagSpecs_of_build find_flag_def)
  have positional: "parse_rest ?cmdHelp (flagSpecs_of build) [''file.txt''] st
                      = Inr (st\<lparr>cmdArgs := cmdArgs st @ [''file.txt'']\<rparr>)"
    if "nextFlag st = None" for st
    using that by (simp add: match_flag_def)
  note watch = boolean_flag_takes_no_value
      [OF d n m1 f1, where cmdHelp = ?cmdHelp and toks = "[''file.txt'']"]
  note workers = boolean_flag_takes_no_value
      [OF d n m2 f2, where cmdHelp = ?cmdHelp and val = "''5''" and toks = "[''file.txt'']"]
  have 1: "parse_rest ?cmdHelp (flagSpecs_of build) [''--watch'', ''file.txt''] parse_init
        = Inr \<lparr>nextFlag = None, flagVals = [''watch'' \<mapsto> VBoolean True],
               cmdArgs = [''file.txt'']\<rparr>"
    using watch by (simp del: parse_rest.simps(2) add: positional n) (simp add: parse_init_def)
  have 2: "parse_rest ?cmdHelp (flagSpecs_of build) [''--workers'', ''5'', ''file.txt''] parse_init
        = Inr \<lparr>nextFlag = None, flagVals = [''workers'' \<mapsto> VNumber (Finite 5)],
               cmdArgs = [''file.txt'']\<rparr>"
    using workers
    by (simp del: parse_rest.simps(2) add: positional n convert_def parseFloat_5 isNaN_def)
      (simp add: parse_init_def)
  have m3: "match_flag ''-w'' = Some (False, ''w'')"
    by (simp add: match_flag_def is_space_def)
  have f3: "find_flag (flagSpecs_of build) False ''w'' = Some ?watch"
    by (simp add: flagSpecs_of_build find_flag_def letter_def)
  show ?thesis
    using d n m1 f1 m2 f2 m3 f3 1 2 by simp
qed

section \<open>Short aliases in the detail view\<close>

lemma length_short_calls: "length (short_calls shorts nms) = length nms"
  by (induction nms arbitrary: shorts) (auto simp: short_def Let_def)

lemma short_calls_nth:
  "i < length nms \<Longrightarrow>
     short_calls shorts nms ! i
       = (if letter (nms ! i) \<in> set shorts \<union> letter ` set (take i nms) then []
          else '', -'' @ (case letter (nms ! i) of None \<Rightarrow> ''undefined'' | Some c \<Rightarrow> [c]))"
proof (induction nms arbitrary: shorts i)
  case Nil
  then show ?case by simp
next
  case (Cons nm nms)
  show ?case
  proof (cases i)
    case 0
    then show ?thesis by (simp add: short_def Let_def)
  next
    case (Suc k)
    with Cons.prems have k: "k < length nms" by simp
    show ?thesis
    proof (cases "letter nm \<in> set shorts")
      case True
      then have "short_calls shorts (nm # nms) ! i = short_calls shorts nms ! k"
        by (simp add: short_def Suc)
      also note Cons.IH [OF k]
      finally show ?thesis using True Suc by auto
    next
      case False
      then have "short_calls shorts (nm # nms) ! i = short_calls (letter nm # shorts) nms ! k"
        by (simp add: short_def Suc Let_def)
      also note Cons.IH [OF k]
      finally show ?thesis using Suc by auto
    qed
  qed
qed

lemma in_take_conv: "(x \<in> f ` set (take i xs)) = (\<exists>j. j < i \<and> j < length xs \<and> f (xs ! j) = x)"
proof
  assume "x \<in> f ` set (take i xs)"
  then obtain j where "j < length (take i xs)" "f (take i xs ! j) = x"
    by (auto simp: in_set_conv_nth)
  then have "j < i \<and> j < length xs \<and> f (xs ! j) = x" by simp
  then show "\<exists>j. j < i \<and> j < length xs \<and> f (xs ! j) = x" ..
next
  assume "\<exists>j. j < i \<and> j < length xs \<and> f (xs ! j) = x"
  then obtain j where j: "j < i" "j < length xs" "f (xs ! j) = x" by blast
  then have "take i xs ! j \<in> set (take i xs)" by (intro nth_mem) simp
  with j show "x \<in> f ` set (take i xs)" by force
qed

lemma short_text_inj:
  "('', -'' @ (case a of None \<Rightarrow> ''undefined'' | Some c \<Rightarrow> [c])
     = '', -'' @ (case b of None \<Rightarrow> ''undefined'' | Some c \<Rightarrow> [c])) = (a = b)"
  by (cases a; cases b) auto

lemma sorted_distinct_strict:
  fixes xs :: "'a::linorder list"
  shows "sorted xs \<Longrightarrow> distinct xs \<Longrightarrow> sorted_wrt (<) xs"
  by (induction xs) (auto simp: less_le)

lemma short_calls_flagSpecs_nth:
  assumes "i < length flagSpecs"
  shows "short_calls [] (map name flagSpecs) ! i
           = (if \<exists>j<i. letter (name (flagSpecs ! j)) = letter (name (flagSpecs ! i)) then []
              else '', -'' @ (case letter (name (flagSpecs ! i)) of
                                None \<Rightarrow> ''undefined'' | Some c \<Rightarrow> [c]))"
proof -
  have "(letter (map name flagSpecs ! i) \<in> set [] \<union> letter ` set (take i (map name flagSpecs)))
          = (\<exists>j<i. letter (name (flagSpecs ! j)) = letter (name (flagSpecs ! i)))"
    using assms by (auto simp: in_take_conv)
  with short_calls_nth [of i "map name flagSpecs" "[]"] assms show ?thesis
    by simp
qed

text \<open>
  C6. The detail view lists the declared flags in strictly ascending order of their names,
  followed by the implicit \<open>help\<close>. Each row is \<open>--name\<close>, the text of \<open>short\<close> and the type
  annotation. The text of \<open>short\<close> for a row is \<open>, -l\<close> for the first letter \<open>l\<close> of the
  name when no earlier row has a name with that first letter, and empty otherwise; so no
  two rows show the same alias.
\<close>

theorem short_alias_first_flag_only:
  assumes "distinct (map fst (cmd_flags match))"
  shows
    "sorted_wrt (<) (map name (namedFlags (cmd_flags match)))
     \<and> flagSpecs_of match = namedFlags (cmd_flags match) @ [help_flag]
     \<and> shown (helpFor match (flagSpecs_of match) msg)
          = Detail (cmd_name match)
              (map2 flag_left (flagSpecs_of match)
                 (short_calls [] (map name (flagSpecs_of match))))
     \<and> length (short_calls [] (map name (flagSpecs_of match))) = length (flagSpecs_of match)
     \<and> (\<forall>i < length (flagSpecs_of match).
           short_calls [] (map name (flagSpecs_of match)) ! i
             = (if \<exists>j<i. letter (name (flagSpecs_of match ! j))
                            = letter (name (flagSpecs_of match ! i))
                then []
                else '', -'' @ (case letter (name (flagSpecs_of match ! i)) of
                                  None \<Rightarrow> ''undefined'' | Some c \<Rightarrow> [c])))
     \<and> (\<forall>i j. i < j \<and> j < length (flagSpecs_of match)
                 \<and> short_calls [] (map name (flagSpecs_of match)) ! i \<noteq> []
             \<longrightarrow> short_calls [] (map name (flagSpecs_of match)) ! j
                   \<noteq> short_calls [] (map name (flagSpecs_of match)) ! i)"
proof (intro conjI allI impI)
  show "sorted_wrt (<) (map name (namedFlags (cmd_flags match)))"
    by (rule sorted_distinct_strict [OF sorted_namedFlags distinct_namedFlags [OF assms]])
  show "flagSpecs_of match = namedFlags (cmd_flags match) @ [help_flag]"
    by (simp add: flagSpecs_of_def)
  show "shown (helpFor match (flagSpecs_of match) msg)
          = Detail (cmd_name match)
              (map2 flag_left (flagSpecs_of match)
                 (short_calls [] (map name (flagSpecs_of match))))"
    by (simp add: helpFor_def)
  show "length (short_calls [] (map name (flagSpecs_of match))) = length (flagSpecs_of match)"
    by (simp add: length_short_calls)
next
  fix i
  assume "i < length (flagSpecs_of match)"
  then show "short_calls [] (map name (flagSpecs_of match)) ! i
             = (if \<exists>j<i. letter (name (flagSpecs_of match ! j))
                            = letter (name (flagSpecs_of match ! i))
                then []
                else '', -'' @ (case letter (name (flagSpecs_of match ! i)) of
                                  None \<Rightarrow> ''undefined'' | Some c \<Rightarrow> [c]))"
    by (rule short_calls_flagSpecs_nth)
next
  fix i j
  let ?specs = "flagSpecs_of match"
  let ?shorts = "short_calls [] (map name ?specs)"
  assume a: "i < j \<and> j < length ?specs \<and> ?shorts ! i \<noteq> []"
  then have i: "i < length ?specs" and j: "j < length ?specs" by simp_all
  show "?shorts ! j \<noteq> ?shorts ! i"
  proof
    assume eq: "?shorts ! j = ?shorts ! i"
    with a have nonempty: "?shorts ! j \<noteq> []" by simp
    from a have si: "?shorts ! i = '', -'' @ (case letter (name (?specs ! i)) of
                                  None \<Rightarrow> ''undefined'' | Some c \<Rightarrow> [c])"
      unfolding short_calls_flagSpecs_nth [OF i] by (simp split: if_splits)
    from nonempty have first: "\<not> (\<exists>k<j. letter (name (?specs ! k)) = letter (name (?specs ! j)))"
      unfolding short_calls_flagSpecs_nth [OF j] by (simp split: if_splits)
    with nonempty have sj: "?shorts ! j = '', -'' @ (case letter (name (?specs ! j)) of
                                  None \<Rightarrow> ''undefined'' | Some c \<Rightarrow> [c])"
      unfolding short_calls_flagSpecs_nth [OF j] by (simp split: if_splits)
    from eq si sj have "letter (name (?specs ! j)) = letter (name (?specs ! i))"
      using short_text_inj [of "letter (name (?specs ! j))" "letter (name (?specs ! i))"]
      by simp
    with a first show False by auto
  qed
qed

text \<open>Of \<open>watch\<close> and \<open>workers\<close>, only \<open>watch\<close> is shown with \<open>-w\<close>.\<close>

theorem short_alias_first_flag_only_witness:
  "distinct (map fst (cmd_flags build))
   \<and> map name (flagSpecs_of build) = [''host'', ''watch'', ''workers'', ''help'']
   \<and> short_calls [] (map name (flagSpecs_of build)) = ['', -h'', '', -w'', [], []]
   \<and> shown (helpFor build (flagSpecs_of build) None)
        = Detail ''build''
            ['' --host, -h <string>'', '' --watch, -w'', '' --workers <number>'', '' --help'']
   \<and> sorted_wrt (<) (map name (namedFlags (cmd_flags build)))"
proof -
  have d: "distinct (map fst (cmd_flags build))"
    by (simp add: build_def)
  have s: "short_calls [] (map name (flagSpecs_of build)) = ['', -h'', '', -w'', [], []]"
    by (simp add: flagSpecs_of_build help_flag_def short_def letter_def)
  have n: "map name (flagSpecs_of build) = [''host'', ''watch'', ''workers'', ''help'']"
    by (simp add: flagSpecs_of_build help_flag_def)
  have rows: "map2 flag_left (flagSpecs_of build) ['', -h'', '', -w'', [], []]
        = ['' --host, -h <string>'', '' --watch, -w'', '' --workers <number>'', '' --help'']"
    by (simp add: flagSpecs_of_build help_flag_def flag_left_def)
  have c: "cmd_name build = ''build''"
    by (simp add: build_def)
  note inst = short_alias_first_flag_only [OF d, of None]
  from inst have ordered: "sorted_wrt (<) (map name (namedFlags (cmd_flags build)))"
    by (rule conjunct1)
  from inst have "shown (helpFor build (flagSpecs_of build) None)
          = Detail (cmd_name build)
              (map2 flag_left (flagSpecs_of build)
                 (short_calls [] (map name (flagSpecs_of build))))"
    by blast
  then have view: "shown (helpFor build (flagSpecs_of build) None)
        = Detail ''build''
            ['' --host, -h <string>'', '' --watch, -w'', '' --workers <number>'', '' --help'']"
    by (simp only: s rows c)
  from d n s view ordered show ?thesis by blast
qed

lemma find_append_first:
  "find P xs = Some x \<Longrightarrow> find P (xs @ ys) = Some x"
  by (induction xs) auto

lemma short_h: "(case letter nm of None \<Rightarrow> False | Some l \<Rightarrow> l \<in> set ''h'') = (letter nm = Some CHR ''h'')"
  by (cases "letter nm") auto

text \<open>
  C9. The implicit \<open>help\<close> flag comes after the sorted declared flags. When a declared flag
  has a name starting with \<open>h\<close>, the token \<open>-h\<close>, read with no flag pending, is the marker of
  the first such declared flag: the loop sets that flag to \<open>true\<close> if it is boolean-typed
  and makes it the pending flag otherwise. The detail view printed by \<open>helpFor\<close> has the row
  \<open>--name, -h\<close> with the type annotation for that flag, and the row of the implicit \<open>help\<close>
  is \<open>--help\<close> with no alias.
\<close>

theorem dash_h_is_first_declared_h_flag:
  assumes "flag \<in> set (namedFlags (cmd_flags match))"
    and "letter (name flag) = Some CHR ''h''"
  shows
    "flagSpecs_of match = namedFlags (cmd_flags match) @ [help_flag]
     \<and> sorted (map name (namedFlags (cmd_flags match)))
     \<and> match_flag ''-h'' = Some (False, ''h'')
     \<and> (\<exists>i < length (namedFlags (cmd_flags match)).
           letter (name (namedFlags (cmd_flags match) ! i)) = Some CHR ''h''
           \<and> (\<forall>j<i. letter (name (namedFlags (cmd_flags match) ! j)) \<noteq> Some CHR ''h'')
           \<and> find_flag (flagSpecs_of match) False ''h'' = Some (namedFlags (cmd_flags match) ! i)
           \<and> (\<forall>cmdHelp st toks. nextFlag st = None \<longrightarrow>
                 parse_rest cmdHelp (flagSpecs_of match) (''-h'' # toks) st
                   = (if typeof (initial (namedFlags (cmd_flags match) ! i)) = ''boolean''
                      then parse_rest cmdHelp (flagSpecs_of match) toks
                             (st\<lparr>flagVals := (flagVals st)
                                   (name (namedFlags (cmd_flags match) ! i) \<mapsto> VBoolean True)\<rparr>)
                      else parse_rest cmdHelp (flagSpecs_of match) toks
                             (st\<lparr>nextFlag := Some (namedFlags (cmd_flags match) ! i)\<rparr>)))
           \<and> short_calls [] (map name (flagSpecs_of match)) ! i = '', -h''
           \<and> short_calls [] (map name (flagSpecs_of match))
                ! length (namedFlags (cmd_flags match)) = []
           \<and> (\<forall>msg. \<exists>rows.
                 shown (helpFor match (flagSpecs_of match) msg) = Detail (cmd_name match) rows
                 \<and> length rows = Suc (length (namedFlags (cmd_flags match)))
                 \<and> rows ! i
                     = '' --'' @ name (namedFlags (cmd_flags match) ! i) @ '', -h''
                         @ (if typeof (initial (namedFlags (cmd_flags match) ! i)) = ''boolean''
                            then []
                            else '' <'' @ typeof (initial (namedFlags (cmd_flags match) ! i))
                                   @ ''>'')
                 \<and> rows ! length (namedFlags (cmd_flags match)) = '' --help''))"
proof (intro conjI)
  let ?U = "namedFlags (cmd_flags match)"
  let ?P = "\<lambda>f. letter (name f) = Some CHR ''h''"
  let ?shorts = "short_calls [] (map name (flagSpecs_of match))"
  show specs: "flagSpecs_of match = ?U @ [help_flag]"
    by (simp add: flagSpecs_of_def)
  show "sorted (map name ?U)"
    by (rule sorted_namedFlags)
  show mf: "match_flag ''-h'' = Some (False, ''h'')"
    by (simp add: match_flag_def is_space_def)
  from assms have "find ?P ?U \<noteq> None"
    by (auto simp: find_None_iff)
  then obtain u where u: "find ?P ?U = Some u" by auto
  then obtain i where i: "i < length ?U" "?P (?U ! i)" "u = ?U ! i" "\<forall>j<i. \<not> ?P (?U ! j)"
    unfolding find_Some_iff by blast
  have found: "find_flag (flagSpecs_of match) False ''h'' = Some (?U ! i)"
    using find_append_first [OF u, of "[help_flag]"] i(3)
    by (simp add: find_flag_def specs short_h)
  have len: "i < length (flagSpecs_of match)" "length ?U < length (flagSpecs_of match)"
    using i(1) by (simp_all add: specs)
  have at: "flagSpecs_of match ! k = ?U ! k" if "k < length ?U" for k
    using that by (simp add: specs nth_append)
  have last: "flagSpecs_of match ! length ?U = help_flag"
    by (simp add: specs)
  have first: "\<not> (\<exists>j<i. letter (name (flagSpecs_of match ! j)) = letter (name (flagSpecs_of match ! i)))"
    using i by (auto simp: at)
  have shown_h: "?shorts ! i = '', -h''"
    unfolding short_calls_flagSpecs_nth [OF len(1)] using first i(1,2) by (simp add: at)
  have "letter (name (flagSpecs_of match ! i)) = letter (name (flagSpecs_of match ! length ?U))"
    using i(1,2) by (simp add: at last help_flag_def letter_def)
  with i(1) have "\<exists>j<length ?U. letter (name (flagSpecs_of match ! j))
                      = letter (name (flagSpecs_of match ! length ?U))"
    by blast
  then have none: "?shorts ! length ?U = []"
    unfolding short_calls_flagSpecs_nth [OF len(2)] by simp
  have marker: "parse_rest cmdHelp (flagSpecs_of match) (''-h'' # toks) st
                   = (if typeof (initial (?U ! i)) = ''boolean''
                      then parse_rest cmdHelp (flagSpecs_of match) toks
                             (st\<lparr>flagVals := (flagVals st)(name (?U ! i) \<mapsto> VBoolean True)\<rparr>)
                      else parse_rest cmdHelp (flagSpecs_of match) toks
                             (st\<lparr>nextFlag := Some (?U ! i)\<rparr>))"
    if "nextFlag st = None" for cmdHelp st toks
    using that mf found by simp
  have rows: "\<exists>rows.
                 shown (helpFor match (flagSpecs_of match) msg) = Detail (cmd_name match) rows
                 \<and> length rows = Suc (length ?U)
                 \<and> rows ! i
                     = '' --'' @ name (?U ! i) @ '', -h''
                         @ (if typeof (initial (?U ! i)) = ''boolean'' then []
                            else '' <'' @ typeof (initial (?U ! i)) @ ''>'')
                 \<and> rows ! length ?U = '' --help''" for msg
  proof -
    let ?rows = "map2 flag_left (flagSpecs_of match) ?shorts"
    have l: "length ?rows = Suc (length ?U)"
      by (simp add: length_short_calls specs)
    have "?rows ! i = flag_left (flagSpecs_of match ! i) (?shorts ! i)"
      using len(1) by (simp add: length_short_calls)
    then have ri: "?rows ! i
                     = '' --'' @ name (?U ! i) @ '', -h''
                         @ (if typeof (initial (?U ! i)) = ''boolean'' then []
                            else '' <'' @ typeof (initial (?U ! i)) @ ''>'')"
      using i(1) by (simp add: shown_h at flag_left_def)
    have "?rows ! length ?U = flag_left (flagSpecs_of match ! length ?U) (?shorts ! length ?U)"
      using len(2) by (simp add: length_short_calls)
    then have rl: "?rows ! length ?U = '' --help''"
      by (simp add: none last flag_left_def help_flag_def)
    have "shown (helpFor match (flagSpecs_of match) msg) = Detail (cmd_name match) ?rows"
      by (simp add: helpFor_def)
    with l ri rl show ?thesis by blast
  qed
  from i found shown_h none marker rows
  show "\<exists>i < length ?U.
           letter (name (?U ! i)) = Some CHR ''h''
           \<and> (\<forall>j<i. letter (name (?U ! j)) \<noteq> Some CHR ''h'')
           \<and> find_flag (flagSpecs_of match) False ''h'' = Some (?U ! i)
           \<and> (\<forall>cmdHelp st toks. nextFlag st = None \<longrightarrow>
                 parse_rest cmdHelp (flagSpecs_of match) (''-h'' # toks) st
                   = (if typeof (initial (?U ! i)) = ''boolean''
                      then parse_rest cmdHelp (flagSpecs_of match) toks
                             (st\<lparr>flagVals := (flagVals st)(name (?U ! i) \<mapsto> VBoolean True)\<rparr>)
                      else parse_rest cmdHelp (flagSpecs_of match) toks
                             (st\<lparr>nextFlag := Some (?U ! i)\<rparr>)))
           \<and> ?shorts ! i = '', -h''
           \<and> ?shorts ! length ?U = []
           \<and> (\<forall>msg. \<exists>rows.
                 shown (helpFor match (flagSpecs_of match) msg) = Detail (cmd_name match) rows
                 \<and> length rows = Suc (length ?U)
                 \<and> rows ! i
                     = '' --'' @ name (?U ! i) @ '', -h''
                         @ (if typeof (initial (?U ! i)) = ''boolean'' then []
                            else '' <'' @ typeof (initial (?U ! i)) @ ''>'')
                 \<and> rows ! length ?U = '' --help'')"
    by (intro exI [of _ i] conjI allI impI) auto
qed

text \<open>In \<open>build\<close>, \<open>-h\<close> is \<open>host\<close>: \<open>-h example.org\<close> sets \<open>host\<close>, and the detail view shows
  \<open>--host, -h <string>\<close> and \<open>--help\<close>.\<close>

theorem dash_h_is_first_declared_h_flag_witness:
  "host_spec \<in> set (namedFlags (cmd_flags build))
   \<and> letter (name host_spec) = Some CHR ''h''
   \<and> match_flag ''-h'' = Some (False, ''h'')
   \<and> find_flag (flagSpecs_of build) False ''h'' = Some host_spec
   \<and> parse_rest (helpFor build (flagSpecs_of build)) (flagSpecs_of build)
         [''-h'', ''example.org''] parse_init
        = Inr \<lparr>nextFlag = None, flagVals = [''host'' \<mapsto> VString ''example.org''], cmdArgs = []\<rparr>
   \<and> (\<exists>rows. shown (helpFor build (flagSpecs_of build) None) = Detail ''build'' rows
          \<and> rows ! 0 = '' --host, -h <string>'' \<and> rows ! 3 = '' --help'')
   \<and> shown (helpFor build (flagSpecs_of build) None)
        = Detail ''build''
            ['' --host, -h <string>'', '' --watch, -w'', '' --workers <number>'', '' --help'']"
proof -
  let ?cmdHelp = "helpFor build (flagSpecs_of build)"
  let ?U = "namedFlags (cmd_flags build)"
  have nf: "?U
      = [host_spec,
         \<lparr>initial = VBoolean False, description = ''Watch for changes'', env = None,
          name = ''watch''\<rparr>,
         \<lparr>initial = VNumber (Finite 2), description = ''Parallel jobs'', env = None,
          name = ''workers''\<rparr>]"
    by (simp add: build_def namedFlags_def toSorted_def host_spec_def)
  have m: "host_spec \<in> set ?U"
    by (simp add: nf)
  have l: "letter (name host_spec) = Some CHR ''h''"
    by (simp add: host_spec_def letter_def)
  have c: "cmd_name build = ''build''"
    by (simp add: build_def)
  note inst = dash_h_is_first_declared_h_flag [OF m l]
  from inst have mf: "match_flag ''-h'' = Some (False, ''h'')" by blast
  from inst obtain i where i: "i < length ?U"
    "letter (name (?U ! i)) = Some CHR ''h''"
    "\<forall>j<i. letter (name (?U ! j)) \<noteq> Some CHR ''h''"
    "find_flag (flagSpecs_of build) False ''h'' = Some (?U ! i)"
    and marker: "\<forall>cmdHelp st toks. nextFlag st = None \<longrightarrow>
                 parse_rest cmdHelp (flagSpecs_of build) (''-h'' # toks) st
                   = (if typeof (initial (?U ! i)) = ''boolean''
                      then parse_rest cmdHelp (flagSpecs_of build) toks
                             (st\<lparr>flagVals := (flagVals st)(name (?U ! i) \<mapsto> VBoolean True)\<rparr>)
                      else parse_rest cmdHelp (flagSpecs_of build) toks
                             (st\<lparr>nextFlag := Some (?U ! i)\<rparr>))"
    and rows: "\<forall>msg. \<exists>rows.
                 shown (helpFor build (flagSpecs_of build) msg) = Detail (cmd_name build) rows
                 \<and> length rows = Suc (length ?U)
                 \<and> rows ! i
                     = '' --'' @ name (?U ! i) @ '', -h''
                         @ (if typeof (initial (?U ! i)) = ''boolean'' then []
                            else '' <'' @ typeof (initial (?U ! i)) @ ''>'')
                 \<and> rows ! length ?U = '' --help''"
    by blast
  have i0: "i = 0"
  proof (rule ccontr)
    assume "i \<noteq> 0"
    then have "0 < i" by simp
    with i(3) have "letter (name (?U ! 0)) \<noteq> Some CHR ''h''" by blast
    then show False by (simp add: nf l)
  qed
  have ui: "?U ! i = host_spec" "length ?U = 3"
    by (simp_all add: i0 nf)
  from i(4) have ff: "find_flag (flagSpecs_of build) False ''h'' = Some host_spec"
    by (simp only: ui)
  have n0: "nextFlag parse_init = None"
    by (simp add: parse_init_def)
  from marker n0 have
    "parse_rest ?cmdHelp (flagSpecs_of build) (''-h'' # [''example.org'']) parse_init
       = (if typeof (initial (?U ! i)) = ''boolean''
          then parse_rest ?cmdHelp (flagSpecs_of build) [''example.org'']
                 (parse_init\<lparr>flagVals := (flagVals parse_init)(name (?U ! i) \<mapsto> VBoolean True)\<rparr>)
          else parse_rest ?cmdHelp (flagSpecs_of build) [''example.org'']
                 (parse_init\<lparr>nextFlag := Some (?U ! i)\<rparr>))"
    by blast
  then have "parse_rest ?cmdHelp (flagSpecs_of build) [''-h'', ''example.org''] parse_init
       = parse_rest ?cmdHelp (flagSpecs_of build) [''example.org'']
           (parse_init\<lparr>nextFlag := Some host_spec\<rparr>)"
    unfolding ui by (simp del: parse_rest.simps add: host_spec_def)
  also have "\<dots> = Inr \<lparr>nextFlag = None, flagVals = [''host'' \<mapsto> VString ''example.org''],
                       cmdArgs = []\<rparr>"
    by (simp add: host_spec_def convert_def parse_init_def)
  finally have pr: "parse_rest ?cmdHelp (flagSpecs_of build) [''-h'', ''example.org''] parse_init
        = Inr \<lparr>nextFlag = None, flagVals = [''host'' \<mapsto> VString ''example.org''],
               cmdArgs = []\<rparr>" .
  from rows obtain rs where
    rs: "shown (helpFor build (flagSpecs_of build) None) = Detail (cmd_name build) rs"
    "rs ! i = '' --'' @ name (?U ! i) @ '', -h''
                @ (if typeof (initial (?U ! i)) = ''boolean'' then []
                   else '' <'' @ typeof (initial (?U ! i)) @ ''>'')"
    "rs ! length ?U = '' --help''"
    by blast
  from rs(2) have r0: "rs ! 0 = '' --host, -h <string>''"
    unfolding ui i0 [symmetric] by (simp add: host_spec_def)
  from rs(3) have r3: "rs ! 3 = '' --help''"
    by (simp only: ui)
  from rs(1) r0 r3 have view: "\<exists>rows. shown (helpFor build (flagSpecs_of build) None)
                                  = Detail ''build'' rows
          \<and> rows ! 0 = '' --host, -h <string>'' \<and> rows ! 3 = '' --help''"
    unfolding c by blast
  have full: "shown (helpFor build (flagSpecs_of build) None)
        = Detail ''build''
            ['' --host, -h <string>'', '' --watch, -w'', '' --workers <number>'', '' --help'']"
    by (simp add: helpFor_def c flagSpecs_of_build help_flag_def flag_left_def short_def
        letter_def)
  from m l mf ff pr view full show ?thesis by blast
qed

section \<open>Help requests\<close>




lemma helpFor_code: "code (helpFor match flagSpecs msg) = 0"
  by (simp add: helpFor_def)




section \<open>Exit codes of the error paths\<close>

lemma flagSpecs_of_deploy:
  "flagSpecs_of deploy =
     [\<lparr>initial = VString [], description = ''API token'', env = Some ''DEPLOY_TOKEN'',
       name = ''token''\<rparr>, help_flag]"
  by (simp add: flagSpecs_of_def deploy_def namedFlags_def toSorted_def)

text \<open>
  C2. The detail view ends in \<open>process.exit(0)\<close> whether a message is given or not, while
  the overview ends in \<open>process.exit(msg ? 1 : 0)\<close>. So an unknown flag, a missing flag value
  and a string thrown by a handler print the error and exit with code 0, not 1; an
  unresolved command prints the overview and exits with code 1.
\<close>

theorem error_help_exit_codes:
  "root [build] Map.empty [''build'', ''--bogus'']
     = Exited \<lparr>shown = Detail ''build''
                  ['' --host, -h <string>'', '' --watch, -w'', '' --workers <number>'',
                   '' --help''],
               message = Some ''unknown flag \"bogus\"'', code = 0\<rparr>
   \<and> root [build] Map.empty [''build'', ''--workers'']
       = Exited \<lparr>shown = Detail ''build''
                    ['' --host, -h <string>'', '' --watch, -w'', '' --workers <number>'',
                     '' --help''],
                 message = Some ''missing value for flag: workers'', code = 0\<rparr>
   \<and> root [deploy] Map.empty [''deploy'']
       = Exited \<lparr>shown = Detail ''deploy'' ['' --token, -t <string>'', '' --help, -h''],
                 message = Some ''token is required'', code = 0\<rparr>
   \<and> root [build] Map.empty [''deploy'']
       = Exited \<lparr>shown = Overview [''build''],
                 message = Some ''no matched command: deploy'', code = 1\<rparr>"
proof (intro conjI)
  have rows: "map2 flag_left (flagSpecs_of build) (short_calls [] (map name (flagSpecs_of build)))
        = ['' --host, -h <string>'', '' --watch, -w'', '' --workers <number>'', '' --help'']"
    by (simp add: flagSpecs_of_build help_flag_def flag_left_def short_def letter_def)
  have drows: "map2 flag_left (flagSpecs_of deploy)
                 (short_calls [] (map name (flagSpecs_of deploy)))
        = ['' --token, -t <string>'', '' --help, -h'']"
    by (simp add: flagSpecs_of_deploy help_flag_def flag_left_def short_def letter_def)
  have c: "cmd_name build = ''build''" "cmd_name deploy = ''deploy''"
    by (simp_all add: build_def deploy_def)
  have r1: "resolve [build] [''build'', ''--bogus''] = Some (build, [''--bogus''])"
    by (simp add: resolve_def) (simp add: build_def)
  have r2: "resolve [build] [''build'', ''--workers''] = Some (build, [''--workers''])"
    by (simp add: resolve_def) (simp add: build_def)
  have r3: "resolve [deploy] [''deploy''] = Some (deploy, [])"
    by (simp add: resolve_def) (simp add: deploy_def)
  have r4: "resolve [build] [''deploy''] = None"
    by (simp add: resolve_def) (simp add: build_def)
  have "root [build] Map.empty [''build'', ''--bogus'']
          = Exited (helpFor build (flagSpecs_of build) (Some ''unknown flag \"bogus\"''))"
    by (simp add: root_def cmd_def prepare_def r1 flagSpecs_of_build parse_init_def
        match_flag_def is_space_def find_flag_def help_flag_def)
  then show "root [build] Map.empty [''build'', ''--bogus'']
     = Exited \<lparr>shown = Detail ''build''
                  ['' --host, -h <string>'', '' --watch, -w'', '' --workers <number>'',
                   '' --help''],
               message = Some ''unknown flag \"bogus\"'', code = 0\<rparr>"
    by (simp add: helpFor_def rows c truthy_str_def)
  have "root [build] Map.empty [''build'', ''--workers'']
          = Exited (helpFor build (flagSpecs_of build) (Some ''missing value for flag: workers''))"
    by (simp add: root_def cmd_def prepare_def r2 flagSpecs_of_build parse_init_def
        match_flag_def is_space_def find_flag_def help_flag_def)
  then show "root [build] Map.empty [''build'', ''--workers'']
       = Exited \<lparr>shown = Detail ''build''
                    ['' --host, -h <string>'', '' --watch, -w'', '' --workers <number>'',
                     '' --help''],
                 message = Some ''missing value for flag: workers'', code = 0\<rparr>"
    by (simp add: helpFor_def rows c truthy_str_def)
  have "prepare [deploy] Map.empty [''deploy'']
          = Inr (deploy, \<lparr>input_flags = [''token'' \<mapsto> VString [], ''help'' \<mapsto> VBoolean False],
                          input_args = [], input_cmdName = ''deploy''\<rparr>)"
    by (simp add: prepare_def r3 flagSpecs_of_deploy parse_init_def truthy_opt_def
        env_value_def help_flag_def c has_key_def inherited_keys_def)
  then have "root [deploy] Map.empty [''deploy'']
          = Exited (helpFor deploy (flagSpecs_of deploy) (Some ''token is required''))"
    by (simp add: root_def cmd_def) (simp add: deploy_def truthy_opt_def)
  then show "root [deploy] Map.empty [''deploy'']
       = Exited \<lparr>shown = Detail ''deploy'' ['' --token, -t <string>'', '' --help, -h''],
                 message = Some ''token is required'', code = 0\<rparr>"
    by (simp add: helpFor_def drows c truthy_str_def)
  show "root [build] Map.empty [''deploy'']
       = Exited \<lparr>shown = Overview [''build''],
                 message = Some ''no matched command: deploy'', code = 1\<rparr>"
    by (simp add: root_def cmd_def prepare_def r4 help_commands_def truthy_str_def c)
qed

end
